theory Spec2Isabelle
  imports Complex_Main "HOL-Library.Log_Nat"
begin

datatype double = Finite rat | NegZero | PosInf | NegInf | NaN

definition pow2 :: "int \<Rightarrow> rat" where
  "pow2 e = (if 0 \<le> e then 2 ^ nat e else 1 / 2 ^ nat (- e))"

definition binade :: "rat \<Rightarrow> int" where
  "binade x = (if 1 \<le> x then bitlen \<lfloor>x\<rfloor> - 1 else - bitlen (\<lceil>1 / x\<rceil> - 1))"

definition round_half_even :: "rat \<Rightarrow> int" where
  "round_half_even x =
     (let n = \<lfloor>x\<rfloor>; f = x - of_int n in
      if f < 1 / 2 then n else if 1 / 2 < f then n + 1 else if even n then n else n + 1)"

definition fl :: "rat \<Rightarrow> double" where
  "fl x =
     (let q = pow2 (max (binade \<bar>x\<bar>) (- 1022) - 52);
          n = round_half_even (x / q);
          y = of_int n * q in
      if pow2 1024 \<le> \<bar>y\<bar> then (if 0 < x then PosInf else NegInf)
      else if n = 0 then (if 0 < x then Finite 0 else NegZero)
      else Finite y)"

definition is_nan :: "double \<Rightarrow> bool" where
  "is_nan a = (a = NaN)"

fun is_zero :: "double \<Rightarrow> bool" where
  "is_zero (Finite r) = (r = 0)"
| "is_zero NegZero = True"
| "is_zero _ = False"

fun negative :: "double \<Rightarrow> bool" where
  "negative (Finite r) = (r < 0)"
| "negative NegZero = True"
| "negative NegInf = True"
| "negative _ = False"

fun val :: "double \<Rightarrow> rat" where
  "val (Finite r) = r"
| "val _ = 0"

fun is_finite :: "double \<Rightarrow> bool" where
  "is_finite (Finite r) = True"
| "is_finite NegZero = True"
| "is_finite _ = False"

definition signed_zero :: "bool \<Rightarrow> double" where
  "signed_zero neg = (if neg then NegZero else Finite 0)"

definition signed_inf :: "bool \<Rightarrow> double" where
  "signed_inf neg = (if neg then NegInf else PosInf)"

definition dneg :: "double \<Rightarrow> double" where
  "dneg a = (case a of
      Finite r \<Rightarrow> (if r = 0 then NegZero else Finite (- r))
    | NegZero \<Rightarrow> Finite 0
    | PosInf \<Rightarrow> NegInf
    | NegInf \<Rightarrow> PosInf
    | NaN \<Rightarrow> NaN)"

definition dadd :: "double \<Rightarrow> double \<Rightarrow> double" where
  "dadd a b =
     (if a = NaN \<or> b = NaN then NaN
      else if is_finite a \<and> is_finite b then
        (if val a + val b = 0
         then (if negative a \<and> negative b \<and> is_zero a \<and> is_zero b then NegZero else Finite 0)
         else fl (val a + val b))
      else if is_finite a then b
      else if is_finite b then a
      else if a = b then a else NaN)"

definition dmul :: "double \<Rightarrow> double \<Rightarrow> double" where
  "dmul a b =
     (if a = NaN \<or> b = NaN then NaN
      else if is_finite a \<and> is_finite b then
        (if is_zero a \<or> is_zero b then signed_zero (negative a \<noteq> negative b)
         else fl (val a * val b))
      else if is_zero a \<or> is_zero b then NaN
      else signed_inf (negative a \<noteq> negative b))"

definition ddiv :: "double \<Rightarrow> double \<Rightarrow> double" where
  "ddiv a b =
     (if a = NaN \<or> b = NaN then NaN
      else if is_finite a \<and> is_finite b then
        (if is_zero b then (if is_zero a then NaN else signed_inf (negative a \<noteq> negative b))
         else if is_zero a then signed_zero (negative a \<noteq> negative b)
         else fl (val a / val b))
      else if is_finite b then signed_inf (negative a \<noteq> negative b)
      else if is_finite a then signed_zero (negative a \<noteq> negative b)
      else NaN)"

definition dlt :: "double \<Rightarrow> double \<Rightarrow> bool" where
  "dlt a b =
     (if a = NaN \<or> b = NaN then False
      else if is_finite a \<and> is_finite b then val a < val b
      else if is_finite a then b = PosInf
      else if is_finite b then a = NegInf
      else a = NegInf \<and> b = PosInf)"

definition js_eq :: "double \<Rightarrow> double \<Rightarrow> bool" where
  "js_eq a b =
     (if a = NaN \<or> b = NaN then False
      else if is_finite a \<and> is_finite b then val a = val b
      else a = b)"

definition dle :: "double \<Rightarrow> double \<Rightarrow> bool" where
  "dle a b = (dlt a b \<or> js_eq a b)"

definition Math_round :: "double \<Rightarrow> double" where
  "Math_round a = (case a of
      Finite r \<Rightarrow> (let n = \<lfloor>r + 1 / 2\<rfloor> in
                    if n = 0 then signed_zero (r < 0) else Finite (of_int n))
    | _ \<Rightarrow> a)"

definition Math_abs :: "double \<Rightarrow> double" where
  "Math_abs a = (case a of
      Finite r \<Rightarrow> Finite \<bar>r\<bar>
    | NegZero \<Rightarrow> Finite 0
    | NegInf \<Rightarrow> PosInf
    | _ \<Rightarrow> a)"

definition num :: "int \<Rightarrow> double" where
  "num k = Finite (of_int k)"

definition lit :: "rat \<Rightarrow> double" where
  "lit x = (if x = 0 then Finite 0 else fl x)"

definition InLeapYear :: "int \<Rightarrow> bool" where
  "InLeapYear y = (y mod 4 = 0 \<and> (y mod 100 \<noteq> 0 \<or> y mod 400 = 0))"

definition DaysInYear :: "int \<Rightarrow> int" where
  "DaysInYear y = (if InLeapYear y then 366 else 365)"

definition DayFromYear :: "int \<Rightarrow> int" where
  "DayFromYear y =
     365 * (y - 1970) + (y - 1969) div 4 - (y - 1901) div 100 + (y - 1601) div 400"

text \<open>
  YearFromTime: the largest year whose first day is not after the given day. The search
  starts at a year that is not after the result and goes up one year at a time.
\<close>

function year_search :: "int \<Rightarrow> int \<Rightarrow> int" where
  "year_search dn y = (if DayFromYear (y + 1) \<le> dn then year_search dn (y + 1) else y)"
  by pat_completeness auto
termination
proof (relation "measure (\<lambda>(dn, y). nat (dn - DayFromYear y))")
  show "wf (measure (\<lambda>(dn, y). nat (dn - DayFromYear y)))"
    by simp
next
  fix dn y :: int
  assume le: "DayFromYear (y + 1) \<le> dn"
  define a b c where "a = (y - 1969) div 4" and "b = (y - 1901) div 100"
    and "c = (y - 1601) div 400"
  define a' b' c' where "a' = (y - 1968) div 4" and "b' = (y - 1900) div 100"
    and "c' = (y - 1600) div 400"
  have a: "a \<le> a'"
    unfolding a_def a'_def by (rule zdiv_mono1) simp_all
  have c: "c \<le> c'"
    unfolding c_def c'_def by (rule zdiv_mono1) simp_all
  have "(y - 1900) div 100 \<le> (y - 1901 + 100) div 100"
    by (rule zdiv_mono1) simp_all
  then have b: "b' \<le> b + 1"
    unfolding b_def b'_def by simp
  have "DayFromYear y = 365 * (y - 1970) + a - b + c"
    by (simp add: DayFromYear_def a_def b_def c_def)
  moreover have "DayFromYear (y + 1) = 365 * (y - 1969) + a' - b' + c'"
    by (simp add: DayFromYear_def a'_def b'_def c'_def)
  ultimately have "DayFromYear y < DayFromYear (y + 1)"
    using a b c by simp
  with le show "((dn, y + 1), (dn, y)) \<in> measure (\<lambda>(dn, y). nat (dn - DayFromYear y))"
    by simp
qed


definition YearFromTime :: "int \<Rightarrow> int" where
  "YearFromTime dn = year_search dn (1970 + min ((dn - 2) div 365) ((dn - 2) div 366))"

definition DayWithinYear :: "int \<Rightarrow> int" where
  "DayWithinYear dn = dn - DayFromYear (YearFromTime dn)"

definition leap_offset :: "int \<Rightarrow> int" where
  "leap_offset y = (if InLeapYear y then 1 else 0)"

definition MonthFromTime :: "int \<Rightarrow> int" where
  "MonthFromTime dn =
     (let d = DayWithinYear dn; l = leap_offset (YearFromTime dn) in
      if d < 31 then 0
      else if d < 59 + l then 1
      else if d < 90 + l then 2
      else if d < 120 + l then 3
      else if d < 151 + l then 4
      else if d < 181 + l then 5
      else if d < 212 + l then 6
      else if d < 243 + l then 7
      else if d < 273 + l then 8
      else if d < 304 + l then 9
      else if d < 334 + l then 10
      else 11)"

definition DateFromTime :: "int \<Rightarrow> int" where
  "DateFromTime dn =
     (let d = DayWithinYear dn; l = leap_offset (YearFromTime dn); m = MonthFromTime dn in
      if m = 0 then d + 1
      else if m = 1 then d - 30
      else if m = 2 then d - 58 - l
      else if m = 3 then d - 89 - l
      else if m = 4 then d - 119 - l
      else if m = 5 then d - 150 - l
      else if m = 6 then d - 180 - l
      else if m = 7 then d - 211 - l
      else if m = 8 then d - 242 - l
      else if m = 9 then d - 272 - l
      else if m = 10 then d - 303 - l
      else d - 333 - l)"

definition WeekDay :: "int \<Rightarrow> int" where
  "WeekDay dn = (dn + 4) mod 7"

text \<open>The number of days of a year before the first day of month \<open>mn\<close> (0 to 11).\<close>

definition month_start :: "int \<Rightarrow> int \<Rightarrow> int" where
  "month_start y mn =
     (let l = leap_offset y in
      if mn = 0 then 0
      else if mn = 1 then 31
      else if mn = 2 then 59 + l
      else if mn = 3 then 90 + l
      else if mn = 4 then 120 + l
      else if mn = 5 then 151 + l
      else if mn = 6 then 181 + l
      else if mn = 7 then 212 + l
      else if mn = 8 then 243 + l
      else if mn = 9 then 273 + l
      else if mn = 10 then 304 + l
      else 334 + l)"

definition MakeDay :: "int \<Rightarrow> int \<Rightarrow> int \<Rightarrow> int" where
  "MakeDay year month dt =
     (let ym = year + month div 12; mn = month mod 12 in
      DayFromYear ym + month_start ym mn + dt - 1)"


definition msPerDay :: int where
  "msPerDay = 86400000"

definition Day :: "int \<Rightarrow> int" where
  "Day t = t div msPerDay"

record zone =
  local_offset :: "int \<Rightarrow> int"
  utc_offset :: "int \<Rightarrow> int"

definition Date_year :: "int \<Rightarrow> int" where
  "Date_year year = (if 0 \<le> year \<and> year \<le> 99 then 1900 + year else year)"

definition new_Date :: "zone \<Rightarrow> int \<Rightarrow> int \<Rightarrow> int \<Rightarrow> int option" where
  "new_Date z year month dt =
     (let t = MakeDay (Date_year year) month dt * msPerDay;
          u = t - local_offset z t in
      if \<bar>u\<bar> \<le> 8640000000000000 then Some u else None)"

definition truncate_rat :: "rat \<Rightarrow> int" where
  "truncate_rat r = (if 0 \<le> r then \<lfloor>r\<rfloor> else \<lceil>r\<rceil>)"

definition new_Date_number :: "zone \<Rightarrow> int \<Rightarrow> int \<Rightarrow> double \<Rightarrow> int option" where
  "new_Date_number z year month d =
     (case d of
        Finite r \<Rightarrow> new_Date z year month (truncate_rat r)
      | NegZero \<Rightarrow> new_Date z year month 0
      | _ \<Rightarrow> None)"

definition LocalTime :: "zone \<Rightarrow> int \<Rightarrow> int" where
  "LocalTime z u = u + utc_offset z u"

definition getDate :: "zone \<Rightarrow> int option \<Rightarrow> int option" where
  "getDate z dt = map_option (\<lambda>u. DateFromTime (Day (LocalTime z u))) dt"

definition getDay :: "zone \<Rightarrow> int option \<Rightarrow> int option" where
  "getDay z dt = map_option (\<lambda>u. WeekDay (Day (LocalTime z u))) dt"

definition utc_zone :: zone where
  "utc_zone = \<lparr>local_offset = (\<lambda>t. 0), utc_offset = (\<lambda>u. 0)\<rparr>"

definition zone_kiritimati :: zone where
  "zone_kiritimati =
     \<lparr>local_offset = (\<lambda>t. if t < 788918400000 then - 36000000 else 50400000),
      utc_offset = (\<lambda>u. if u < 788868000000 then - 36000000 else 50400000)\<rparr>"

definition zone_apia :: zone where
  "zone_apia =
     \<lparr>local_offset = (\<lambda>t. if t < 1325289600000 then - 36000000 else 50400000),
      utc_offset = (\<lambda>u. if u < 1325239200000 then - 36000000 else 50400000)\<rparr>"

definition calendar_leap_year :: "int \<Rightarrow> bool" where
  "calendar_leap_year y \<longleftrightarrow> y mod 4 = 0 \<and> (y mod 100 \<noteq> 0 \<or> y mod 400 = 0)"

definition calendar_days_in_year :: "int \<Rightarrow> int" where
  "calendar_days_in_year y = (if calendar_leap_year y then 366 else 365)"

definition calendar_days_in_month :: "int \<Rightarrow> int \<Rightarrow> int" where
  "calendar_days_in_month y m =
     (if m = 1 then (if calendar_leap_year y then 29 else 28)
      else if m = 3 \<or> m = 5 \<or> m = 8 \<or> m = 10 then 30
      else 31)"

definition calendar_day_number :: "int \<Rightarrow> int \<Rightarrow> int \<Rightarrow> int" where
  "calendar_day_number y m d =
     (\<Sum>k = 1970..y - 1. calendar_days_in_year k) - (\<Sum>k = y..1969. calendar_days_in_year k)
     + sum_list (map (calendar_days_in_month y) [0..m - 1]) + (d - 1)"

definition calendar_weekday :: "int \<Rightarrow> int \<Rightarrow> int \<Rightarrow> int" where
  "calendar_weekday y m d = (4 + calendar_day_number y m d) mod 7"

definition valid_year_month :: "int \<Rightarrow> int \<Rightarrow> bool" where
  "valid_year_month year month \<longleftrightarrow> 1 \<le> year \<and> year \<le> 275759 \<and> 0 \<le> month \<and> month \<le> 11"

definition local_midnight :: "int \<Rightarrow> int \<Rightarrow> int \<Rightarrow> int" where
  "local_midnight year month d = MakeDay (Date_year year) month d * msPerDay"

definition keeps_day :: "zone \<Rightarrow> int \<Rightarrow> bool" where
  "keeps_day z t \<longleftrightarrow>
     \<bar>local_offset z t\<bar> \<le> msPerDay \<and> Day (LocalTime z (t - local_offset z t)) = Day t"

definition last_day_within_year :: "int \<Rightarrow> int \<Rightarrow> int" where
  "last_day_within_year y m =
     (if m = 11 then DaysInYear y - 1 else month_start y (m + 1) - 1)"

declare year_search.simps [simp del]

definition years_to :: "int \<Rightarrow> int" where
  "years_to y = (\<Sum>k = 1970..y - 1. calendar_days_in_year k) - (\<Sum>k = y..1969. calendar_days_in_year k)"

datatype TransactionType = INCOME | EXPENSE | SAVING

datatype SpendFrequency = ONCE | WEEKLY

datatype WeeklyBehavior = SMOOTH | LUMP_SUM

record Transaction =
  id_t :: string
  name :: string
  amount :: double
  type :: TransactionType
  dayOfMonth :: double
  dayOfWeek :: "double option"
  frequency :: SpendFrequency
  weeklyBehavior :: "WeeklyBehavior option"
  category :: string

record SimulationPoint =
  date :: string
  dayNumber :: int
  balance :: double
  actualBalance :: "double option"
  dailyDelta :: double
  cumulativeIncome :: double
  cumulativeExpenses :: double

record WeeklySimulationPoint =
  weekLabel :: string
  balance_w :: double
  actualBalance_w :: "double option"
  income :: double
  expenses :: double

record ActualEntry =
  day :: double
  "value" :: double

datatype js_error = TypeError

definition round_100 :: "double \<Rightarrow> double" where
  "round_100 x = ddiv (Math_round (dmul x (num 100))) (num 100)"

definition reduce1 :: "('a \<Rightarrow> 'a \<Rightarrow> 'a) \<Rightarrow> 'a list \<Rightarrow> js_error + 'a" where
  "reduce1 f xs = (case xs of [] \<Rightarrow> Inl TypeError | x # rest \<Rightarrow> Inr (foldl f x rest))"

definition slice :: "'a list \<Rightarrow> nat \<Rightarrow> nat \<Rightarrow> 'a list" where
  "slice xs i j = take (j - i) (drop i xs)"

definition last_element :: "'a list \<Rightarrow> js_error + 'a" where
  "last_element xs = (if xs = [] then Inl TypeError else Inr (xs ! (length xs - 1)))"

definition digit_char :: "nat \<Rightarrow> char" where
  "digit_char n = ''0123456789'' ! n"

function string_of_nat :: "nat \<Rightarrow> string" where
  "string_of_nat n =
     (if n < 10 then [digit_char n] else string_of_nat (n div 10) @ [digit_char (n mod 10)])"
  by pat_completeness auto
termination
  by (relation "measure (\<lambda>n. n)") auto

declare string_of_nat.simps [simp del]

definition string_of_int :: "int \<Rightarrow> string" where
  "string_of_int i =
     (if i < 0 then CHR ''-'' # string_of_nat (nat (- i)) else string_of_nat (nat i))"

definition later_entry :: "ActualEntry \<Rightarrow> ActualEntry \<Rightarrow> ActualEntry" where
  "later_entry prev current = (if dlt (day current) (day prev) then prev else current)"

definition latestActual_of :: "ActualEntry list \<Rightarrow> js_error + ActualEntry option" where
  "latestActual_of actualEntries =
     (if length actualEntries > 0
      then (case reduce1 later_entry actualEntries of
              Inl e \<Rightarrow> Inl e
            | Inr latest \<Rightarrow> Inr (Some latest))
      else Inr None)"

definition smoothRates :: "Transaction list \<Rightarrow> double list" where
  "smoothRates transactions =
     map (\<lambda>t. if frequency t = WEEKLY \<and> weeklyBehavior t = Some SMOOTH
              then ddiv (amount t) (num 7) else num 0) transactions"

definition targetDow :: "Transaction \<Rightarrow> double" where
  "targetDow t = (case dayOfWeek t of None \<Rightarrow> num 1 | Some w \<Rightarrow> w)"

definition weekday_is :: "int option \<Rightarrow> double \<Rightarrow> bool" where
  "weekday_is dow target = (case dow of None \<Rightarrow> False | Some w \<Rightarrow> js_eq (num w) target)"

definition apply_transaction ::
  "double list \<Rightarrow> int \<Rightarrow> int option \<Rightarrow> nat \<times> Transaction \<Rightarrow> double \<times> double \<times> double
   \<Rightarrow> double \<times> double \<times> double" where
  "apply_transaction rates dayv currentDayOfWeek it acc =
     (case it of (idx, t) \<Rightarrow>
      case acc of (delta, cumInc, cumExp) \<Rightarrow>
      let isIncome = (type t = INCOME) in
      if frequency t = ONCE then
        (if js_eq (dayOfMonth t) (num dayv) then
           let v = (if isIncome then amount t else dneg (amount t)) in
           (dadd delta v,
            if isIncome then dadd cumInc (amount t) else cumInc,
            if isIncome then cumExp else dadd cumExp (amount t))
         else acc)
      else if frequency t = WEEKLY then
        (if weeklyBehavior t = Some SMOOTH then
           let rate = rates ! idx;
               v = (if isIncome then rate else dneg rate) in
           (dadd delta v,
            if isIncome then dadd cumInc rate else cumInc,
            if isIncome then cumExp else dadd cumExp rate)
         else
           if weekday_is currentDayOfWeek (targetDow t) then
             let v = (if isIncome then amount t else dneg (amount t)) in
             (dadd delta v,
              if isIncome then dadd cumInc (amount t) else cumInc,
              if isIncome then cumExp else dadd cumExp (amount t))
           else acc)
      else acc)"

definition project_transaction :: "double \<Rightarrow> int option \<Rightarrow> Transaction \<Rightarrow> double \<Rightarrow> double" where
  "project_transaction d dDow t projected =
     (let isInc = (type t = INCOME) in
      if frequency t = ONCE \<and> js_eq (dayOfMonth t) d
      then dadd projected (if isInc then amount t else dneg (amount t))
      else if frequency t = WEEKLY then
        (if weeklyBehavior t = Some SMOOTH
         then dadd projected
                (if isInc then ddiv (amount t) (num 7) else dneg (ddiv (amount t) (num 7)))
         else if weekday_is dDow (targetDow t)
         then dadd projected (if isInc then amount t else dneg (amount t))
         else projected)
      else projected)"

partial_function (option) projection_loop ::
  "zone \<Rightarrow> int \<Rightarrow> int \<Rightarrow> Transaction list \<Rightarrow> double \<Rightarrow> double \<Rightarrow> double \<Rightarrow> double option" where
  "projection_loop z year month transactions dayv d projected =
     (if dle d dayv
      then projection_loop z year month transactions dayv (dadd d (num 1))
             (fold (project_transaction d (getDay z (new_Date_number z year month d)))
                transactions projected)
      else Some projected)"

declare projection_loop.simps [code]

definition actualValue_of ::
  "zone \<Rightarrow> int \<Rightarrow> int \<Rightarrow> Transaction list \<Rightarrow> ActualEntry list \<Rightarrow> ActualEntry option \<Rightarrow> int
   \<Rightarrow> double option option" where
  "actualValue_of z year month transactions actualEntries latestActual dayv =
     (case find (\<lambda>e. js_eq (day e) (num dayv)) actualEntries of
        Some matchingActual \<Rightarrow> Some (Some (value matchingActual))
      | None \<Rightarrow>
          (case latestActual of
             None \<Rightarrow> Some None
           | Some latest \<Rightarrow>
               if dlt (day latest) (num dayv)
               then (case projection_loop z year month transactions (num dayv)
                            (dadd (day latest) (num 1)) (num 0) of
                       None \<Rightarrow> None
                     | Some projectedDeltaSinceReal \<Rightarrow>
                         Some (Some (dadd (value latest) projectedDeltaSinceReal)))
               else Some None))"

record sim_state =
  plannedBalance :: double
  runningIncome :: double
  runningExpenses :: double
  points :: "SimulationPoint list"

definition simulate_day ::
  "zone \<Rightarrow> int \<Rightarrow> int \<Rightarrow> Transaction list \<Rightarrow> ActualEntry list \<Rightarrow> ActualEntry option
   \<Rightarrow> double list \<Rightarrow> int \<Rightarrow> sim_state \<Rightarrow> sim_state option" where
  "simulate_day z year month transactions actualEntries latestActual rates dayv s =
     (let currentDayOfWeek = getDay z (new_Date z year month dayv) in
      case fold (apply_transaction rates dayv currentDayOfWeek)
                (enumerate 0 transactions) (num 0, runningIncome s, runningExpenses s) of
        (delta, cumInc, cumExp) \<Rightarrow>
      let planned = dadd (plannedBalance s) delta in
      case actualValue_of z year month transactions actualEntries latestActual dayv of
        None \<Rightarrow> None
      | Some actualValue \<Rightarrow>
          Some \<lparr>plannedBalance = planned,
                runningIncome = cumInc,
                runningExpenses = cumExp,
                points = points s @
                  [\<lparr>date = string_of_int dayv,
                    dayNumber = dayv,
                    balance = round_100 planned,
                    actualBalance = map_option round_100 actualValue,
                    dailyDelta = round_100 delta,
                    cumulativeIncome = round_100 cumInc,
                    cumulativeExpenses = round_100 cumExp\<rparr>]\<rparr>)"

fun run_days :: "(int \<Rightarrow> sim_state \<Rightarrow> sim_state option) \<Rightarrow> int list \<Rightarrow> sim_state \<Rightarrow> sim_state option" where
  "run_days body [] s = Some s"
| "run_days body (dayv # rest) s =
     (case body dayv s of None \<Rightarrow> None | Some s' \<Rightarrow> run_days body rest s')"

definition calculateDailySimulation ::
  "zone \<Rightarrow> double \<Rightarrow> int \<Rightarrow> int \<Rightarrow> Transaction list \<Rightarrow> ActualEntry list
   \<Rightarrow> (js_error + SimulationPoint list) option" where
  "calculateDailySimulation z initialBalance year month transactions actualEntries =
     (let daysInMonth = getDate z (new_Date z year (month + 1) 0);
          start = \<lparr>plannedBalance = initialBalance, runningIncome = num 0,
                   runningExpenses = num 0, points = []\<rparr> in
      case latestActual_of actualEntries of
        Inl e \<Rightarrow> Some (Inl e)
      | Inr latestActual \<Rightarrow>
          let rates = smoothRates transactions in
          map_option (\<lambda>s. Inr (points s))
            (case daysInMonth of
               None \<Rightarrow> Some start
             | Some n \<Rightarrow>
                 run_days
                   (simulate_day z year month transactions actualEntries latestActual rates)
                   [1..n] start))"

definition simulate_day_part002 ::
  "zone \<Rightarrow> int \<Rightarrow> int \<Rightarrow> Transaction list \<Rightarrow> double list \<Rightarrow> int \<Rightarrow> sim_state \<Rightarrow> sim_state" where
  "simulate_day_part002 z year month transactions rates dayv s =
     (let currentDayOfWeek = getDay z (new_Date z year month dayv) in
      case fold (apply_transaction rates dayv currentDayOfWeek)
                (enumerate 0 transactions) (num 0, runningIncome s, runningExpenses s) of
        (delta, cumInc, cumExp) \<Rightarrow>
      let currentBalance = dadd (plannedBalance s) delta in
      \<lparr>plannedBalance = currentBalance,
       runningIncome = cumInc,
       runningExpenses = cumExp,
       points = points s @
         [\<lparr>date = string_of_int dayv,
           dayNumber = dayv,
           balance = round_100 currentBalance,
           actualBalance = None,
           dailyDelta = round_100 delta,
           cumulativeIncome = round_100 cumInc,
           cumulativeExpenses = round_100 cumExp\<rparr>]\<rparr>)"

definition calculateDailySimulation_part002 ::
  "zone \<Rightarrow> double \<Rightarrow> int \<Rightarrow> int \<Rightarrow> Transaction list \<Rightarrow> SimulationPoint list" where
  "calculateDailySimulation_part002 z initialBalance year month transactions =
     (let daysInMonth = getDate z (new_Date z year (month + 1) 0);
          start = \<lparr>plannedBalance = initialBalance, runningIncome = num 0,
                   runningExpenses = num 0, points = []\<rparr>;
          rates = smoothRates transactions in
      points
        (case daysInMonth of
           None \<Rightarrow> start
         | Some n \<Rightarrow> fold (simulate_day_part002 z year month transactions rates) [1..n] start))"

function weekly_loop ::
  "SimulationPoint list \<Rightarrow> nat \<Rightarrow> int \<Rightarrow> WeeklySimulationPoint list
   \<Rightarrow> js_error + WeeklySimulationPoint list" where
  "weekly_loop dailyPoints i currentWeekIndex weeklyPoints =
     (if i < length dailyPoints then
        (let chunk = slice dailyPoints i (i + 7) in
         case last_element chunk of
           Inl e \<Rightarrow> Inl e
         | Inr lastPoint \<Rightarrow>
             let weekIncome =
                   foldl (\<lambda>sum p. dadd sum
                            (if dlt (num 0) (dailyDelta p) then dailyDelta p else num 0))
                     (num 0) chunk;
                 weekExpense =
                   foldl (\<lambda>sum p. dadd sum
                            (if dlt (dailyDelta p) (num 0) then Math_abs (dailyDelta p) else num 0))
                     (num 0) chunk
             in weekly_loop dailyPoints (i + 7) (currentWeekIndex + 1)
                  (weeklyPoints @
                    [\<lparr>weekLabel = ''Week '' @ string_of_int currentWeekIndex,
                      balance_w = balance lastPoint,
                      actualBalance_w = actualBalance lastPoint,
                      income = round_100 weekIncome,
                      expenses = round_100 weekExpense\<rparr>]))
      else Inr weeklyPoints)"
  by pat_completeness auto
termination
  by (relation "measure (\<lambda>(dailyPoints, i, currentWeekIndex, weeklyPoints). length dailyPoints - i)")
     auto

declare weekly_loop.simps [simp del]

definition aggregateToWeekly ::
  "SimulationPoint list \<Rightarrow> js_error + WeeklySimulationPoint list" where
  "aggregateToWeekly dailyPoints = weekly_loop dailyPoints 0 1 []"

definition regular_month :: "zone \<Rightarrow> int \<Rightarrow> int \<Rightarrow> bool" where
  "regular_month z year month \<longleftrightarrow>
     keeps_day z (local_midnight year (month + 1) 0)
     \<and> list_all (\<lambda>d. keeps_day z (local_midnight year month d)) [1..31]"

definition whole_day_from :: "int \<Rightarrow> ActualEntry \<Rightarrow> bool" where
  "whole_day_from lo e =
     (case day e of
        Finite r \<Rightarrow> of_int \<lfloor>r\<rfloor> = r \<and> lo \<le> \<lfloor>r\<rfloor>
      | _ \<Rightarrow> False)"

definition day_of :: "ActualEntry \<Rightarrow> int" where
  "day_of e = \<lfloor>val (day e)\<rfloor>"

definition magnitude :: "Transaction \<Rightarrow> double" where
  "magnitude t =
     (if frequency t = WEEKLY \<and> weeklyBehavior t = Some SMOOTH
      then ddiv (amount t) (num 7) else amount t)"

definition signed_contribution :: "Transaction \<Rightarrow> double" where
  "signed_contribution t = (if type t = INCOME then magnitude t else dneg (magnitude t))"

definition fires_on :: "int option \<Rightarrow> int \<Rightarrow> Transaction \<Rightarrow> bool" where
  "fires_on dow d t =
     (case frequency t of
        ONCE \<Rightarrow> js_eq (dayOfMonth t) (num d)
      | WEEKLY \<Rightarrow> weeklyBehavior t = Some SMOOTH \<or> weekday_is dow (targetDow t))"

definition host_weekday :: "zone \<Rightarrow> int \<Rightarrow> int \<Rightarrow> int \<Rightarrow> int option" where
  "host_weekday z year month d = getDay z (new_Date z year month d)"

definition calendar_dow :: "int \<Rightarrow> int \<Rightarrow> int \<Rightarrow> int option" where
  "calendar_dow year month d = Some (calendar_weekday year month d)"

definition month_dow :: "zone \<Rightarrow> int \<Rightarrow> int \<Rightarrow> int \<Rightarrow> int option" where
  "month_dow z year month d =
     (if 1 \<le> d then calendar_dow year month d else host_weekday z year month d)"

definition dsum :: "double list \<Rightarrow> double" where
  "dsum xs = foldl dadd (num 0) xs"

definition contributions :: "(int \<Rightarrow> int option) \<Rightarrow> Transaction list \<Rightarrow> int \<Rightarrow> double list" where
  "contributions dowf ts d = map signed_contribution (filter (fires_on (dowf d) d) ts)"

definition income_parts :: "(int \<Rightarrow> int option) \<Rightarrow> Transaction list \<Rightarrow> int \<Rightarrow> double list" where
  "income_parts dowf ts d =
     map magnitude (filter (\<lambda>t. fires_on (dowf d) d t \<and> type t = INCOME) ts)"

definition expense_parts :: "(int \<Rightarrow> int option) \<Rightarrow> Transaction list \<Rightarrow> int \<Rightarrow> double list" where
  "expense_parts dowf ts d =
     map magnitude (filter (\<lambda>t. fires_on (dowf d) d t \<and> type t \<noteq> INCOME) ts)"

definition planned_upto :: "(int \<Rightarrow> int option) \<Rightarrow> double \<Rightarrow> Transaction list \<Rightarrow> int \<Rightarrow> double" where
  "planned_upto dowf ib ts d = foldl (\<lambda>b k. dadd b (dsum (contributions dowf ts k))) ib [1..d]"

definition income_upto :: "(int \<Rightarrow> int option) \<Rightarrow> Transaction list \<Rightarrow> int \<Rightarrow> double" where
  "income_upto dowf ts d = dsum (concat (map (income_parts dowf ts) [1..d]))"

definition expenses_upto :: "(int \<Rightarrow> int option) \<Rightarrow> Transaction list \<Rightarrow> int \<Rightarrow> double" where
  "expenses_upto dowf ts d = dsum (concat (map (expense_parts dowf ts) [1..d]))"

definition projected_from ::
  "(int \<Rightarrow> int option) \<Rightarrow> Transaction list \<Rightarrow> ActualEntry \<Rightarrow> int \<Rightarrow> double" where
  "projected_from dowf ts l d =
     dadd (value l) (dsum (concat (map (contributions dowf ts) [day_of l + 1..d])))"

definition actual_upto ::
  "(int \<Rightarrow> int option) \<Rightarrow> Transaction list \<Rightarrow> ActualEntry list \<Rightarrow> ActualEntry option \<Rightarrow> int
   \<Rightarrow> double option" where
  "actual_upto dowf ts es latest d =
     (case find (\<lambda>e. js_eq (day e) (num d)) es of
        Some e \<Rightarrow> Some (value e)
      | None \<Rightarrow>
          (case latest of
             None \<Rightarrow> None
           | Some l \<Rightarrow> if dlt (day l) (num d) then Some (projected_from dowf ts l d) else None))"

definition day_point ::
  "(int \<Rightarrow> int option) \<Rightarrow> double \<Rightarrow> Transaction list \<Rightarrow> ActualEntry list \<Rightarrow> ActualEntry option
   \<Rightarrow> int \<Rightarrow> SimulationPoint" where
  "day_point dowf ib ts es latest d =
     \<lparr>date = string_of_int d,
      dayNumber = d,
      balance = round_100 (planned_upto dowf ib ts d),
      actualBalance = map_option round_100 (actual_upto dowf ts es latest d),
      dailyDelta = round_100 (dsum (contributions dowf ts d)),
      cumulativeIncome = round_100 (income_upto dowf ts d),
      cumulativeExpenses = round_100 (expenses_upto dowf ts d)\<rparr>"

definition last_max_entry :: "ActualEntry list \<Rightarrow> ActualEntry option" where
  "last_max_entry es =
     (if es = [] then None
      else Some (last (filter (\<lambda>e. list_all (\<lambda>x. day_of x \<le> day_of e) es) es)))"

definition first_on_day :: "ActualEntry list \<Rightarrow> int \<Rightarrow> ActualEntry option" where
  "first_on_day es d = find (\<lambda>e. day_of e = d) es"

definition projected_sum ::
  "zone \<Rightarrow> int \<Rightarrow> int \<Rightarrow> Transaction list \<Rightarrow> int \<Rightarrow> int \<Rightarrow> double" where
  "projected_sum z year month ts a d =
     dsum (concat (map (contributions (month_dow z year month) ts) [a + 1..d]))"





definition example_smooth_rule :: Transaction where
  "example_smooth_rule =
     \<lparr>id_t = ''r1'', name = ''groceries'', amount = num 10, type = EXPENSE, dayOfMonth = num 1,
      dayOfWeek = None, frequency = WEEKLY, weeklyBehavior = Some SMOOTH,
      category = ''food''\<rparr>"

definition example_lump_rule :: Transaction where
  "example_lump_rule =
     \<lparr>id_t = ''r2'', name = ''allowance'', amount = num 50, type = INCOME, dayOfMonth = num 1,
      dayOfWeek = None, frequency = WEEKLY, weeklyBehavior = Some LUMP_SUM,
      category = ''pay''\<rparr>"

definition example_sunday_rule :: Transaction where
  "example_sunday_rule =
     \<lparr>id_t = ''r3'', name = ''market'', amount = num 50, type = INCOME, dayOfMonth = num 1,
      dayOfWeek = Some (num 0), frequency = WEEKLY, weeklyBehavior = Some LUMP_SUM,
      category = ''pay''\<rparr>"

definition example_friday_rule :: Transaction where
  "example_friday_rule =
     \<lparr>id_t = ''r4'', name = ''market'', amount = num 50, type = INCOME, dayOfMonth = num 1,
      dayOfWeek = Some (num 5), frequency = WEEKLY, weeklyBehavior = Some LUMP_SUM,
      category = ''pay''\<rparr>"

definition example_entry :: ActualEntry where
  "example_entry = \<lparr>day = num 10, value = num 1000\<rparr>"

definition stuck_entry :: ActualEntry where
  "stuck_entry = \<lparr>day = num (- 100000000000000000), value = num 0\<rparr>"

definition example_once_rule :: Transaction where
  "example_once_rule =
     \<lparr>id_t = ''r5'', name = ''rent'', amount = num 100, type = EXPENSE, dayOfMonth = num 31,
      dayOfWeek = None, frequency = ONCE, weeklyBehavior = None, category = ''home''\<rparr>"

lemma floor_rat_numeral:
  "\<lfloor>numeral a / numeral b :: rat\<rfloor> = numeral a div numeral b"
  by (metis floor_divide_of_int_eq of_int_numeral)

lemma floor_rat_minus_numeral:
  "\<lfloor>- (numeral a / numeral b) :: rat\<rfloor> = - numeral a div numeral b"
  by (metis divide_minus_left floor_divide_of_int_eq of_int_neg_numeral of_int_numeral)

lemma floor_rat_one_numeral:
  "\<lfloor>1 / numeral b :: rat\<rfloor> = 1 div numeral b"
  by (metis floor_divide_of_int_eq of_int_numeral of_int_1)

lemma ceiling_rat_numeral:
  "\<lceil>numeral a / numeral b :: rat\<rceil> = - (- numeral a div numeral b)"
  by (metis ceiling_divide_eq_div of_int_numeral)

lemma ceiling_rat_one_numeral:
  "\<lceil>1 / numeral b :: rat\<rceil> = - (- 1 div numeral b)"
  by (metis ceiling_divide_eq_div of_int_numeral of_int_1)

lemmas dbl_eval = fl_def binade_def pow2_def round_half_even_def dadd_def dmul_def ddiv_def dneg_def
  dlt_def dle_def js_eq_def Math_round_def Math_abs_def num_def lit_def signed_zero_def signed_inf_def
  compute_bitlen floor_rat_numeral floor_rat_minus_numeral floor_rat_one_numeral
  ceiling_rat_numeral ceiling_rat_one_numeral Let_def

lemma round_half_even_of_int: "round_half_even (of_int n) = n"
  by (simp add: round_half_even_def Let_def)

lemma bitlen_small:
  assumes "0 < j" "j < 2 ^ 53"
  shows "1 \<le> bitlen j \<and> bitlen j \<le> 53"
proof -
  have "bitlen j \<le> 53"
    using assms bitlen_le_iff_power [of j 53] by simp
  moreover have "bitlen j \<noteq> 0"
    using assms(1) by (simp add: bitlen_eq_zero_iff)
  moreover have "0 \<le> bitlen j"
    by (rule bitlen_nonneg)
  ultimately show ?thesis by simp
qed

lemma fl_whole:
  assumes "j \<noteq> 0" "\<bar>j\<bar> < 2 ^ 53"
  shows "fl (of_int j) = Finite (of_int j)"
proof -
  define a where "a = \<bar>j\<bar>"
  have a: "0 < a" "a < 2 ^ 53"
    using assms by (simp_all add: a_def)
  define e where "e = bitlen a - 1"
  have e: "0 \<le> e" "e \<le> 52"
    using bitlen_small [OF a] by (simp_all add: e_def)
  define m where "m = nat (52 - e)"
  have abs: "\<bar>of_int j :: rat\<bar> = of_int a"
    by (simp add: a_def)
  have b: "binade \<bar>of_int j\<bar> = e"
    unfolding abs using a by (simp add: e_def binade_def)
  have q: "pow2 (max (binade \<bar>of_int j :: rat\<bar>) (- 1022) - 52) = 1 / 2 ^ m"
    using e by (simp add: b pow2_def m_def max_def)
  have xq: "(of_int j :: rat) / (1 / 2 ^ m) = of_int (j * 2 ^ m)"
    by simp
  have n: "round_half_even ((of_int j :: rat) / (1 / 2 ^ m)) = j * 2 ^ m"
    unfolding xq by (rule round_half_even_of_int)
  have y: "(of_int (j * 2 ^ m) :: rat) * (1 / 2 ^ m) = of_int j"
    by simp
  have ar: "(of_int a :: rat) < 2 ^ 53"
    using a(2) by (metis of_int_less_numeral_power_cancel_iff)
  have "(2 :: rat) ^ 53 \<le> 2 ^ 1024"
    by (rule power_increasing) simp_all
  then have big: "\<not> pow2 1024 \<le> \<bar>of_int j :: rat\<bar>"
    unfolding abs using ar by (simp add: pow2_def)
  have nz: "j * 2 ^ m \<noteq> 0" using assms by simp
  show ?thesis
    unfolding fl_def q Let_def n y using big nz by simp
qed

lemma dadd_num:
  assumes "\<bar>a + b\<bar> < 2 ^ 53"
  shows "dadd (num a) (num b) = num (a + b)"
proof (cases "a + b = 0")
  case True
  then have "(of_int a :: rat) + of_int b = 0"
    by (metis of_int_0 of_int_add)
  then show ?thesis
    using True by (simp add: dadd_def num_def)
next
  case False
  then have "(of_int a :: rat) + of_int b \<noteq> 0"
    by (metis of_int_0_eq_iff of_int_add)
  then show ?thesis
    using fl_whole [OF False assms] by (simp add: dadd_def num_def)
qed

lemma dle_num [simp]: "dle (num a) (num b) \<longleftrightarrow> a \<le> b"
  by (auto simp add: dle_def dlt_def js_eq_def num_def)

lemma dlt_num [simp]: "dlt (num a) (num b) \<longleftrightarrow> a < b"
  by (simp add: dlt_def num_def)

lemma js_eq_num [simp]: "js_eq (num a) (num b) \<longleftrightarrow> a = b"
  by (simp add: js_eq_def num_def)

lemma num_not_NegZero [simp]: "num k \<noteq> NegZero"
  by (simp add: num_def)

lemma truncate_rat_of_int [simp]: "truncate_rat (of_int k) = k"
  by (simp add: truncate_rat_def)

lemma new_Date_number_num [simp]: "new_Date_number z year month (num k) = new_Date z year month k"
  by (simp add: new_Date_number_def num_def)

lemma projection_loop_stop:
  "\<not> dle d dayv \<Longrightarrow> projection_loop z year month ts dayv d p = Some p"
  by (subst projection_loop.simps) simp

lemma projection_loop_whole:
  assumes "- (2 ^ 53) < k" "n < 2 ^ 53 - 1"
  shows "projection_loop z year month ts (num n) (num (k + 1)) p =
     Some (foldl (\<lambda>p j. fold (project_transaction (num j) (getDay z (new_Date z year month j))) ts p)
             p [k + 1..n])"
  using assms
proof (induction "nat (n - k)" arbitrary: k p)
  case 0
  then have "n < k + 1" by simp
  then show ?case
    by (simp add: projection_loop_stop)
next
  case (Suc m)
  then have kn: "k + 1 \<le> n" by simp
  have m: "m = nat (n - (k + 1))" using Suc(2) by simp
  have k1: "- (2 ^ 53) < k + 1" using Suc(3) by simp
  have "\<bar>k + 1 + 1\<bar> < 2 ^ 53"
    using Suc(3) Suc(4) kn by simp
  then have step: "dadd (num (k + 1)) (num 1) = num (k + 1 + 1)"
    by (rule dadd_num)
  have upto: "[k + 1..n] = (k + 1) # [k + 1 + 1..n]"
    using kn by (simp add: upto_rec1)
  show ?case
    apply (subst projection_loop.simps)
    apply (simp only: dle_num kn if_True step new_Date_number_num)
    apply (subst Suc(1) [OF m k1 Suc(4)])
    apply (simp only: upto foldl_Cons)
    done
qed

lemma dadd_stuck: "dadd (num (- 100000000000000000)) (num 1) = num (- 100000000000000000)"
  by (simp add: dbl_eval)

lemma projection_loop_diverges:
  assumes stuck: "dadd d (num 1) = d" and le: "dle d dayv"
  shows "projection_loop z year month ts dayv d p = None"
proof (cases "projection_loop z year month ts dayv d p")
  case None
  then show ?thesis .
next
  case (Some r)
  have "\<not> (dayv = dayv \<and> d = d)"
    by (rule projection_loop.raw_induct
          [where P = "\<lambda>z' year' month' ts' dayv' d' p' r'. \<not> (dayv' = dayv \<and> d' = d)", OF _ Some])
       (use stuck le in \<open>auto split: if_splits\<close>)
  then show ?thesis by simp
qed

lemma div_step:
  fixes a n :: int
  assumes n: "0 < n"
  shows "(a + 1) div n = a div n + (if (a + 1) mod n = 0 then 1 else 0)"
proof (cases "a mod n = n - 1")
  case True
  have a: "a = n * (a div n) + a mod n" by simp
  have "a + 1 = n * (a div n + 1) + 0"
    using a True by (simp add: algebra_simps)
  then have "(a + 1) div n = a div n + 1" "(a + 1) mod n = 0"
    using n by (auto intro: int_div_pos_eq int_mod_pos_eq)
  then show ?thesis by simp
next
  case False
  have a: "a = n * (a div n) + a mod n" by simp
  have b: "0 \<le> a mod n" "a mod n < n" using n by simp_all
  have eq: "a + 1 = n * (a div n) + (a mod n + 1)"
    using a by simp
  have r: "0 \<le> a mod n + 1" "a mod n + 1 < n" using b False by linarith+
  have "(a + 1) div n = a div n"
    using int_div_pos_eq [OF eq r] .
  moreover have "(a + 1) mod n = a mod n + 1"
    using int_mod_pos_eq [OF eq r] .
  ultimately show ?thesis using b by simp
qed

lemma mod_shift:
  fixes y :: int
  shows "(y - c * n) mod n = y mod n"
proof -
  have "y - c * n = y + (- c) * n" by simp
  then show ?thesis by (simp only: mod_mult_self1)
qed

lemma mod_shift4: "(y - 1968) mod 4 = 0 \<longleftrightarrow> y mod 4 = (0::int)"
  using mod_shift [of y 492 4] by simp

lemma mod_shift100: "(y - 1900) mod 100 = 0 \<longleftrightarrow> y mod 100 = (0::int)"
  using mod_shift [of y 19 100] by simp

lemma mod_shift400: "(y - 1600) mod 400 = 0 \<longleftrightarrow> y mod 400 = (0::int)"
  using mod_shift [of y 4 400] by simp

lemma mod400_100: "y mod 400 = 0 \<Longrightarrow> y mod 100 = (0::int)"
proof -
  assume "y mod 400 = 0"
  then have "400 dvd y" by (simp add: mod_eq_0_iff_dvd)
  moreover have "(100::int) dvd 400" by simp
  ultimately have "100 dvd y" by (rule dvd_trans [rotated])
  then show ?thesis by (simp add: mod_eq_0_iff_dvd)
qed

lemma mod100_4: "y mod 100 = 0 \<Longrightarrow> y mod 4 = (0::int)"
proof -
  assume "y mod 100 = 0"
  then have "100 dvd y" by (simp add: mod_eq_0_iff_dvd)
  moreover have "(4::int) dvd 100" by simp
  ultimately have "4 dvd y" by (rule dvd_trans [rotated])
  then show ?thesis by (simp add: mod_eq_0_iff_dvd)
qed

lemma leap_div_step:
  fixes y n k :: int
  assumes n: "0 < n"
  shows "(y - k * n) div n = (y - k * n - 1) div n + (if y mod n = 0 then 1 else 0)"
proof -
  have "(y - k * n - 1 + 1) mod n = y mod n"
    using mod_shift [of y k n] by simp
  with div_step [OF n, of "y - k * n - 1"] show ?thesis by simp
qed

lemma DayFromYear_Suc: "DayFromYear (y + 1) = DayFromYear y + DaysInYear y"
proof -
  define p4 p100 p400 where "p4 \<longleftrightarrow> y mod 4 = 0"
    and "p100 \<longleftrightarrow> y mod 100 = 0" and "p400 \<longleftrightarrow> y mod 400 = 0"
  define a b c where "a = (y - 1969) div 4" and "b = (y - 1901) div 100"
    and "c = (y - 1601) div 400"
  have 1: "(y - 1968) div 4 = a + (if p4 then 1 else 0)"
    using leap_div_step [of 4 y 492] by (simp add: p4_def a_def)
  have 2: "(y - 1900) div 100 = b + (if p100 then 1 else 0)"
    using leap_div_step [of 100 y 19] by (simp add: p100_def b_def)
  have 3: "(y - 1600) div 400 = c + (if p400 then 1 else 0)"
    using leap_div_step [of 400 y 4] by (simp add: p400_def c_def)
  have imp: "p400 \<longrightarrow> p100" "p100 \<longrightarrow> p4"
    using mod400_100 [of y] mod100_4 [of y] by (simp_all add: p4_def p100_def p400_def)
  have lhs: "DayFromYear (y + 1) = 365 * (y - 1969) + (y - 1968) div 4
      - (y - 1900) div 100 + (y - 1600) div 400"
    by (simp add: DayFromYear_def)
  have rhs: "DayFromYear y = 365 * (y - 1970) + a - b + c"
    by (simp add: DayFromYear_def a_def b_def c_def)
  have diy: "DaysInYear y = (if p4 \<and> (\<not> p100 \<or> p400) then 366 else 365)"
    by (simp add: DaysInYear_def InLeapYear_def p4_def p100_def p400_def)
  show ?thesis
    unfolding lhs rhs diy 1 2 3 using imp by (cases p4; cases p100; cases p400) simp_all
qed

lemma DaysInYear_pos: "365 \<le> DaysInYear y"
  by (simp add: DaysInYear_def)

lemma DayFromYear_mono_nat: "DayFromYear y + 365 * int n \<le> DayFromYear (y + int n)"
proof (induction n)
  case 0
  show ?case by simp
next
  case (Suc n)
  have "y + int (Suc n) = (y + int n) + 1" by simp
  then have "DayFromYear (y + int (Suc n)) = DayFromYear (y + int n) + DaysInYear (y + int n)"
    by (simp only: DayFromYear_Suc)
  with Suc DaysInYear_pos [of "y + int n"] show ?case by simp
qed

lemma DayFromYear_strict_mono:
  assumes "y < z"
  shows "DayFromYear y < DayFromYear z"
proof -
  define n where "n = nat (z - y)"
  have z: "z = y + int n" and n: "0 < n"
    using assms by (simp_all add: n_def)
  from DayFromYear_mono_nat [of y n] n show ?thesis
    unfolding z by simp
qed

lemma year_search_bounds:
  "DayFromYear y \<le> dn \<Longrightarrow>
     DayFromYear (year_search dn y) \<le> dn \<and> dn < DayFromYear (year_search dn y + 1)"
proof (induction dn y rule: year_search.induct)
  case (1 dn y)
  show ?case
  proof (cases "DayFromYear (y + 1) \<le> dn")
    case True
    with "1.IH" have "DayFromYear (year_search dn (y + 1)) \<le> dn
        \<and> dn < DayFromYear (year_search dn (y + 1) + 1)"
      by simp
    moreover from True have "year_search dn y = year_search dn (y + 1)"
      by (subst year_search.simps) simp
    ultimately show ?thesis by simp
  next
    case False
    then have "year_search dn y = y"
      by (subst year_search.simps) simp
    with False "1.prems" show ?thesis by simp
  qed
qed

lemma year_unique:
  assumes "DayFromYear y \<le> dn" "dn < DayFromYear (y + 1)"
    and "DayFromYear z \<le> dn" "dn < DayFromYear (z + 1)"
  shows "y = z"
proof (rule ccontr)
  assume "y \<noteq> z"
  then consider "y + 1 < z" | "y + 1 = z" | "z + 1 < y" | "z + 1 = y" by linarith
  then show False
  proof cases
    case 1
    from DayFromYear_strict_mono [OF 1] assms show False by linarith
  next
    case 2
    with assms show False by simp
  next
    case 3
    from DayFromYear_strict_mono [OF 3] assms show False by linarith
  next
    case 4
    with assms show False by simp
  qed
qed

lemma div_lower:
  fixes x n :: int
  shows "0 < n \<Longrightarrow> n * (x div n) \<le> x"
  using mult_div_mod_eq [of n x] pos_mod_sign [of n x] by linarith

lemma div_upper:
  fixes x n :: int
  shows "0 < n \<Longrightarrow> x < n * (x div n) + n"
  using mult_div_mod_eq [of n x] pos_mod_bound [of n x] by linarith

lemma DayFromYear_upper: "400 * DayFromYear (1970 + k) \<le> 146097 * k + 589"
proof -
  define a b c where "a = (1 + k) div 4" and "b = (69 + k) div 100"
    and "c = (369 + k) div 400"
  have a: "4 * a \<le> 1 + k"
    unfolding a_def by (rule div_lower) simp
  have b: "69 + k < 100 * b + 100"
    unfolding b_def by (rule div_upper) simp
  have c: "400 * c \<le> 369 + k"
    unfolding c_def by (rule div_lower) simp
  have "DayFromYear (1970 + k) = 365 * k + a - b + c"
    by (simp add: DayFromYear_def a_def b_def c_def)
  with a b c show ?thesis by linarith
qed

lemma year_estimate:
  "DayFromYear (1970 + min ((dn - 2) div 365) ((dn - 2) div 366)) \<le> dn"
proof -
  define p q where "p = (dn - 2) div 365" and "q = (dn - 2) div 366"
  have p: "365 * p \<le> dn - 2"
    unfolding p_def by (rule div_lower) simp
  have q: "366 * q \<le> dn - 2"
    unfolding q_def by (rule div_lower) simp
  have "400 * DayFromYear (1970 + min p q) \<le> 146097 * min p q + 589"
    by (rule DayFromYear_upper)
  with p q have "400 * DayFromYear (1970 + min p q) \<le> 400 * dn"
    by (cases "0 \<le> min p q") (simp_all add: min_def split: if_splits)
  then show ?thesis
    unfolding p_def q_def by simp
qed

lemma YearFromTime_eq:
  assumes "DayFromYear y \<le> dn" "dn < DayFromYear (y + 1)"
  shows "YearFromTime dn = y"
proof -
  have "DayFromYear (YearFromTime dn) \<le> dn \<and> dn < DayFromYear (YearFromTime dn + 1)"
    unfolding YearFromTime_def by (rule year_search_bounds [OF year_estimate])
  with assms show ?thesis
    using year_unique [of "YearFromTime dn" dn y] by simp
qed

lemma YearFromTime_in_year:
  assumes "0 \<le> d" "d < DaysInYear y"
  shows "YearFromTime (DayFromYear y + d) = y"
  using assms by (intro YearFromTime_eq) (simp_all add: DayFromYear_Suc)

lemma DayWithinYear_in_year:
  assumes "0 \<le> d" "d < DaysInYear y"
  shows "DayWithinYear (DayFromYear y + d) = d"
  using assms by (simp add: DayWithinYear_def YearFromTime_in_year)

lemma DayFromYear_mono: "y \<le> z \<Longrightarrow> DayFromYear y \<le> DayFromYear z"
  using DayFromYear_strict_mono [of y z] by (cases "y = z") simp_all

lemma MonthFromTime_in_year:
  assumes "0 \<le> d" "d < DaysInYear y"
  shows "MonthFromTime (DayFromYear y + d) =
     (let l = leap_offset y in
      if d < 31 then 0
      else if d < 59 + l then 1
      else if d < 90 + l then 2
      else if d < 120 + l then 3
      else if d < 151 + l then 4
      else if d < 181 + l then 5
      else if d < 212 + l then 6
      else if d < 243 + l then 7
      else if d < 273 + l then 8
      else if d < 304 + l then 9
      else if d < 334 + l then 10
      else 11)"
  unfolding MonthFromTime_def
  by (simp add: YearFromTime_in_year [OF assms] DayWithinYear_in_year [OF assms] Let_def)

lemma DateFromTime_in_year:
  assumes "0 \<le> d" "d < DaysInYear y"
  shows "DateFromTime (DayFromYear y + d) =
     (let l = leap_offset y; m = MonthFromTime (DayFromYear y + d) in
      if m = 0 then d + 1
      else if m = 1 then d - 30
      else if m = 2 then d - 58 - l
      else if m = 3 then d - 89 - l
      else if m = 4 then d - 119 - l
      else if m = 5 then d - 150 - l
      else if m = 6 then d - 180 - l
      else if m = 7 then d - 211 - l
      else if m = 8 then d - 242 - l
      else if m = 9 then d - 272 - l
      else if m = 10 then d - 303 - l
      else d - 333 - l)"
  unfolding DateFromTime_def
  by (simp add: YearFromTime_in_year [OF assms] DayWithinYear_in_year [OF assms] Let_def)

lemma month_cases:
  fixes m :: int
  assumes "0 \<le> m" "m \<le> 11"
  shows "m = 0 \<or> m = 1 \<or> m = 2 \<or> m = 3 \<or> m = 4 \<or> m = 5 \<or> m = 6 \<or> m = 7 \<or> m = 8
    \<or> m = 9 \<or> m = 10 \<or> m = 11"
  using assms by presburger

lemma MakeDay_last:
  assumes "0 \<le> m" "m \<le> 11"
  shows "MakeDay y (m + 1) 0 = DayFromYear y + last_day_within_year y m"
  using month_cases [OF assms]
  by (elim disjE)
     (simp_all add: MakeDay_def last_day_within_year_def DayFromYear_Suc month_start_def)

lemma last_day_within_year_bounds:
  assumes "0 \<le> m" "m \<le> 11"
  shows "0 \<le> last_day_within_year y m \<and> last_day_within_year y m < DaysInYear y"
  using month_cases [OF assms]
  by (elim disjE)
     (simp_all add: last_day_within_year_def month_start_def leap_offset_def DaysInYear_def)

lemma DateFromTime_last:
  assumes "0 \<le> m" "m \<le> 11"
  shows "DateFromTime (DayFromYear y + last_day_within_year y m) =
     (if m = 1 then (if InLeapYear y then 29 else 28)
      else if m = 3 \<or> m = 5 \<or> m = 8 \<or> m = 10 then 30
      else 31)"
proof -
  note b = last_day_within_year_bounds [OF assms, of y]
  have b1: "0 \<le> last_day_within_year y m" and b2: "last_day_within_year y m < DaysInYear y"
    using b by simp_all
  show ?thesis
    unfolding DateFromTime_in_year [OF b1 b2] MonthFromTime_in_year [OF b1 b2]
    using month_cases [OF assms]
    by (elim disjE)
       (simp_all add: last_day_within_year_def month_start_def leap_offset_def DaysInYear_def)
qed

lemma InLeapYear_Date_year:
  assumes "1 \<le> year"
  shows "InLeapYear (Date_year year) \<longleftrightarrow>
     year mod 4 = 0 \<and> (year mod 100 \<noteq> 0 \<or> year mod 400 = 0)"
proof (cases "year \<le> 99")
  case False
  then show ?thesis by (simp add: Date_year_def InLeapYear_def)
next
  case True
  have 4: "(1900 + year) mod 4 = year mod 4"
    using mod_shift [of year "- 475" 4] by (simp add: add.commute)
  have 100: "(1900 + year) mod 100 = year mod 100"
    using mod_shift [of year "- 19" 100] by (simp add: add.commute)
  have "year mod 100 = year"
    using True assms by simp
  with assms have "year mod 100 \<noteq> 0" by simp
  with True assms 4 100 show ?thesis
    by (simp add: Date_year_def InLeapYear_def)
qed

lemma calendar_days_in_year_eq: "calendar_days_in_year y = DaysInYear y"
  by (simp add: calendar_days_in_year_def calendar_leap_year_def DaysInYear_def InLeapYear_def)

lemma years_to_step: "years_to (y + 1) = years_to y + calendar_days_in_year y"
proof (cases "1970 \<le> y")
  case True
  have "{1970..y + 1 - 1} = insert y {1970..y - 1}"
    using True by auto
  moreover have "{y + 1..1969} = {}" "{y..1969} = {}"
    using True by auto
  ultimately show ?thesis
    by (simp add: years_to_def)
next
  case False
  have "{y..1969} = insert y {y + 1..1969}"
    using False by auto
  moreover have "{1970..y + 1 - 1} = {}" "{1970..y - 1} = {}"
    using False by auto
  ultimately show ?thesis
    by (simp add: years_to_def)
qed

lemma DayFromYear_1970: "DayFromYear 1970 = 0"
  by (simp add: DayFromYear_def)

lemma DayFromYear_years_to: "DayFromYear y = years_to y"
proof (induction y rule: int_induct [where k = 1970])
  case base
  show ?case by (simp add: DayFromYear_1970 years_to_def)
next
  case (step1 i)
  then show ?case
    by (simp add: DayFromYear_Suc years_to_step calendar_days_in_year_eq)
next
  case (step2 i)
  have "DayFromYear (i - 1 + 1) = DayFromYear (i - 1) + DaysInYear (i - 1)"
    by (rule DayFromYear_Suc)
  moreover have "years_to (i - 1 + 1) = years_to (i - 1) + calendar_days_in_year (i - 1)"
    by (rule years_to_step)
  ultimately show ?case
    using step2 by (simp add: calendar_days_in_year_eq)
qed

lemma month_start_calendar:
  assumes "0 \<le> m" "m \<le> 11"
  shows "month_start y m = sum_list (map (calendar_days_in_month y) [0..m - 1])"
  using month_cases [OF assms]
  by (elim disjE)
     (simp_all add: month_start_def leap_offset_def calendar_days_in_month_def
        calendar_leap_year_def InLeapYear_def upto_rec1)

lemma MakeDay_calendar:
  assumes "0 \<le> m" "m \<le> 11"
  shows "MakeDay y m d = calendar_day_number y m d"
proof -
  have "m div 12 = 0" "m mod 12 = m"
    using assms by simp_all
  then show ?thesis
    by (simp add: MakeDay_def calendar_day_number_def DayFromYear_years_to years_to_def
        month_start_calendar [OF assms])
qed


lemma Day_midnight: "Day (dn * msPerDay) = dn"
  by (simp add: Day_def msPerDay_def)

lemma new_Date_some:
  assumes mk: "MakeDay (Date_year year) month dt = dn"
    and r: "\<bar>dn\<bar> \<le> 99999998"
    and off: "\<bar>local_offset z (dn * msPerDay)\<bar> \<le> msPerDay"
  shows "new_Date z year month dt = Some (dn * msPerDay - local_offset z (dn * msPerDay))"
proof -
  have "\<bar>dn * msPerDay\<bar> \<le> 99999998 * msPerDay"
    using r by (simp add: abs_mult msPerDay_def)
  with off have "\<bar>dn * msPerDay - local_offset z (dn * msPerDay)\<bar> \<le> 8640000000000000"
    by (simp add: msPerDay_def)
  then show ?thesis
    by (simp add: new_Date_def mk Let_def)
qed

lemma getters_kept:
  assumes mk: "MakeDay (Date_year year) month dt = dn"
    and r: "\<bar>dn\<bar> \<le> 99999998"
    and k: "keeps_day z (local_midnight year month dt)"
  shows "getDate z (new_Date z year month dt) = Some (DateFromTime dn)"
    and "getDay z (new_Date z year month dt) = Some (WeekDay dn)"
proof -
  have off: "\<bar>local_offset z (dn * msPerDay)\<bar> \<le> msPerDay"
    and d: "Day (LocalTime z (dn * msPerDay - local_offset z (dn * msPerDay))) = dn"
    using k by (simp_all add: keeps_day_def local_midnight_def mk Day_midnight)
  show "getDate z (new_Date z year month dt) = Some (DateFromTime dn)"
    by (simp add: new_Date_some [OF mk r off] getDate_def d)
  show "getDay z (new_Date z year month dt) = Some (WeekDay dn)"
    by (simp add: new_Date_some [OF mk r off] getDay_def d)
qed

lemma Date_year_range:
  assumes "1 \<le> year" "year \<le> 275759"
  shows "100 \<le> Date_year year" "Date_year year + 1 \<le> 275760"
  using assms by (simp_all add: Date_year_def)

lemma DayFromYear_range:
  assumes "100 \<le> yr" "yr + 1 \<le> 275760"
  shows "- 683003 \<le> DayFromYear yr" "DayFromYear (yr + 1) \<le> 99999744"
proof -
  have "DayFromYear 100 \<le> DayFromYear yr"
    by (rule DayFromYear_mono) (rule assms)
  moreover have "DayFromYear (yr + 1) \<le> DayFromYear 275760"
    by (rule DayFromYear_mono) (rule assms)
  moreover have "DayFromYear 100 = - 683003" "DayFromYear 275760 = 99999744"
    by (simp_all add: DayFromYear_def)
  ultimately show "- 683003 \<le> DayFromYear yr" "DayFromYear (yr + 1) \<le> 99999744"
    by simp_all
qed

lemma calendar_days_in_month_Date_year:
  assumes "1 \<le> year"
  shows "(if m = 1 then (if InLeapYear (Date_year year) then 29 else 28)
      else if m = 3 \<or> m = 5 \<or> m = 8 \<or> m = 10 then 30
      else 31) = calendar_days_in_month year m"
  by (simp add: calendar_days_in_month_def calendar_leap_year_def InLeapYear_Date_year [OF assms])

lemma getDate_last:
  assumes v: "valid_year_month year month"
    and k: "keeps_day z (local_midnight year (month + 1) 0)"
  shows "getDate z (new_Date z year (month + 1) 0) = Some (calendar_days_in_month year month)"
proof -
  define yr where "yr = Date_year year"
  have m: "0 \<le> month" "month \<le> 11" and y: "1 \<le> year" "year \<le> 275759"
    using v by (simp_all add: valid_year_month_def)
  note yr = Date_year_range [OF y, folded yr_def]
  note b = last_day_within_year_bounds [OF m, of yr]
  note dr = DayFromYear_range [OF yr]
  have mk: "MakeDay (Date_year year) (month + 1) 0 = DayFromYear yr + last_day_within_year yr month"
    unfolding yr_def by (rule MakeDay_last [OF m])
  have r: "\<bar>DayFromYear yr + last_day_within_year yr month\<bar> \<le> 99999998"
    using dr b unfolding DayFromYear_Suc abs_le_iff by linarith
  show ?thesis
    unfolding getters_kept(1) [OF mk r k] DateFromTime_last [OF m] yr_def
      calendar_days_in_month_Date_year [OF y(1)]
    by (rule refl)
qed

lemma month_start_bounds:
  assumes "0 \<le> m" "m \<le> 11"
  shows "0 \<le> month_start y m" "month_start y m \<le> 335"
  using month_cases [OF assms]
  by (auto simp: month_start_def leap_offset_def)

lemma getDay_calendar:
  assumes y: "100 \<le> year" "year \<le> 275759"
    and m: "0 \<le> month" "month \<le> 11"
    and d: "1 \<le> d" "d \<le> 31"
    and k: "keeps_day z (local_midnight year month d)"
  shows "getDay z (new_Date z year month d) = Some (calendar_weekday year month d)"
proof -
  have yr: "Date_year year = year"
    using y by (simp add: Date_year_def)
  have y': "100 \<le> year" "year + 1 \<le> 275760"
    using y by simp_all
  note dr = DayFromYear_range [OF y']
  note mb = month_start_bounds [OF m, of year]
  have md: "month div 12 = 0" "month mod 12 = month"
    using m by simp_all
  have mk: "MakeDay (Date_year year) month d = calendar_day_number year month d"
    unfolding yr by (rule MakeDay_calendar [OF m])
  have "calendar_day_number year month d = DayFromYear year + month_start year month + d - 1"
    unfolding MakeDay_calendar [OF m, symmetric] by (simp add: MakeDay_def md)
  moreover have "DayFromYear year + 365 \<le> DayFromYear (year + 1)"
    using DaysInYear_pos [of year] by (simp add: DayFromYear_Suc)
  ultimately have r: "\<bar>calendar_day_number year month d\<bar> \<le> 99999998"
    using dr mb d unfolding abs_le_iff by linarith
  show ?thesis
    unfolding getters_kept(2) [OF mk r k] by (simp add: calendar_weekday_def WeekDay_def add.commute)
qed

lemma keeps_day_utc: "keeps_day utc_zone t"
  by (simp add: keeps_day_def utc_zone_def LocalTime_def msPerDay_def)

lemma apply_transaction_step:
  assumes "rates ! idx = (if frequency t = WEEKLY \<and> weeklyBehavior t = Some SMOOTH
      then ddiv (amount t) (num 7) else num 0)"
  shows "apply_transaction rates d dow (idx, t) (a, b, c) =
     (if fires_on dow d t
      then (dadd a (signed_contribution t),
            if type t = INCOME then dadd b (magnitude t) else b,
            if type t = INCOME then c else dadd c (magnitude t))
      else (a, b, c))"
  using assms
  by (cases "frequency t")
     (simp_all add: apply_transaction_def signed_contribution_def fires_on_def magnitude_def
        Let_def)

lemma forEach_fold:
  assumes "\<And>i. i < length ts \<Longrightarrow> rates ! (n + i) =
     (if frequency (ts ! i) = WEEKLY \<and> weeklyBehavior (ts ! i) = Some SMOOTH
      then ddiv (amount (ts ! i)) (num 7) else num 0)"
  shows "fold (apply_transaction rates d dow) (enumerate n ts) (a, b, c) =
     (foldl dadd a (map signed_contribution (filter (fires_on dow d) ts)),
      foldl dadd b (map magnitude (filter (\<lambda>t. fires_on dow d t \<and> type t = INCOME) ts)),
      foldl dadd c (map magnitude (filter (\<lambda>t. fires_on dow d t \<and> type t \<noteq> INCOME) ts)))"
  using assms
proof (induction ts arbitrary: n a b c)
  case Nil
  show ?case by simp
next
  case (Cons t ts)
  have head: "rates ! n = (if frequency t = WEEKLY \<and> weeklyBehavior t = Some SMOOTH
      then ddiv (amount t) (num 7) else num 0)"
    using Cons.prems [of 0] by simp
  have tail: "\<And>i. i < length ts \<Longrightarrow> rates ! (Suc n + i) =
     (if frequency (ts ! i) = WEEKLY \<and> weeklyBehavior (ts ! i) = Some SMOOTH
      then ddiv (amount (ts ! i)) (num 7) else num 0)"
    using Cons.prems [of "Suc i" for i] by simp
  show ?case
    using Cons.IH [OF tail]
    by (simp add: apply_transaction_step [OF head])
qed

lemma forEach_smoothRates:
  "fold (apply_transaction (smoothRates ts) d (host_weekday z year month d)) (enumerate 0 ts)
      (num 0, b, c) =
     (dsum (contributions (host_weekday z year month) ts d),
      foldl dadd b (income_parts (host_weekday z year month) ts d),
      foldl dadd c (expense_parts (host_weekday z year month) ts d))"
  unfolding dsum_def contributions_def income_parts_def expense_parts_def
  by (rule forEach_fold) (simp add: smoothRates_def)

lemma project_transaction_step:
  "project_transaction (num d) dow t acc =
     (if fires_on dow d t then dadd acc (signed_contribution t) else acc)"
  by (cases "frequency t")
     (simp_all add: project_transaction_def signed_contribution_def fires_on_def magnitude_def
        Let_def)

lemma project_fold:
  "fold (project_transaction (num d) (host_weekday z year month d)) ts acc =
     foldl dadd acc (contributions (host_weekday z year month) ts d)"
  unfolding contributions_def
  by (induction ts arbitrary: acc) (simp_all add: project_transaction_step)

lemma foldl_foldl_concat:
  "foldl (\<lambda>p j. foldl f p (g j)) p js = foldl f p (concat (map g js))"
  by (induction js arbitrary: p) simp_all

lemma whole_day_from_num:
  assumes "whole_day_from lo e"
  shows "day e = num (day_of e) \<and> lo \<le> day_of e"
  using assms by (cases "day e") (auto simp add: whole_day_from_def day_of_def num_def)

lemma projection_closed:
  assumes "- (2 ^ 53) < day_of l" "day l = num (day_of l)" "d < 2 ^ 53 - 1" "day_of l < d"
  shows "projection_loop z year month ts (num d) (dadd (day l) (num 1)) (num 0) =
     Some (dsum (concat (map (contributions (host_weekday z year month) ts) [day_of l + 1..d])))"
proof -
  have "dadd (day l) (num 1) = num (day_of l + 1)"
    using assms(1,3,4) by (subst assms(2)) (simp add: dadd_num)
  then show ?thesis
    using projection_loop_whole [OF assms(1) assms(3), of z year month ts "num 0"]
    by (simp add: project_fold [unfolded host_weekday_def] host_weekday_def [abs_def]
        foldl_foldl_concat dsum_def)
qed

lemma actualValue_of_closed:
  assumes "case latest of None \<Rightarrow> True | Some l \<Rightarrow> whole_day_from (- (2 ^ 53) + 1) l"
    and "d < 2 ^ 53 - 1"
  shows "actualValue_of z year month ts es latest d =
     Some (actual_upto (host_weekday z year month) ts es latest d)"
proof (cases latest)
  case None
  then show ?thesis
    by (simp add: actualValue_of_def actual_upto_def split: option.splits)
next
  case (Some l)
  then have w: "day l = num (day_of l)" "- (2 ^ 53) < day_of l"
    using assms(1) whole_day_from_num [of "- (2 ^ 53) + 1" l] by simp_all
  show ?thesis
  proof (cases "dlt (day l) (num d)")
    case True
    then have "day_of l < d"
      by (subst (asm) w(1)) simp
    then show ?thesis
      using Some True projection_closed [OF w(2) w(1) assms(2), of z year month ts]
      by (simp add: actualValue_of_def actual_upto_def projected_from_def split: option.splits)
  next
    case False
    then show ?thesis
      using Some by (simp add: actualValue_of_def actual_upto_def split: option.splits)
  qed
qed

lemma upto_snoc_nat: "[1..int (Suc n)] = [1..int n] @ [int n + 1]"
  using upto_rec2 [of 1 "int n + 1"] by (simp add: add.commute)

lemma planned_upto_Suc:
  "planned_upto dowf ib ts (int n + 1) =
     dadd (planned_upto dowf ib ts (int n)) (dsum (contributions dowf ts (int n + 1)))"
  using upto_snoc_nat [of n] by (simp add: planned_upto_def add.commute)

lemma income_upto_Suc:
  "income_upto dowf ts (int n + 1) =
     foldl dadd (income_upto dowf ts (int n)) (income_parts dowf ts (int n + 1))"
  using upto_snoc_nat [of n] by (simp add: income_upto_def dsum_def add.commute)

lemma expenses_upto_Suc:
  "expenses_upto dowf ts (int n + 1) =
     foldl dadd (expenses_upto dowf ts (int n)) (expense_parts dowf ts (int n + 1))"
  using upto_snoc_nat [of n] by (simp add: expenses_upto_def dsum_def add.commute)

lemma run_days_snoc:
  "run_days body (xs @ [x]) s =
     (case run_days body xs s of None \<Rightarrow> None | Some s' \<Rightarrow> body x s')"
  by (induction xs arbitrary: s) (simp_all split: option.splits)

lemma simulate_day_closed:
  assumes "case latest of None \<Rightarrow> True | Some l \<Rightarrow> whole_day_from (- (2 ^ 53) + 1) l"
    and "int n + 1 < 2 ^ 53 - 1"
  shows "simulate_day z year month ts es latest (smoothRates ts) (int n + 1)
      \<lparr>plannedBalance = planned_upto (host_weekday z year month) ib ts (int n),
       runningIncome = income_upto (host_weekday z year month) ts (int n),
       runningExpenses = expenses_upto (host_weekday z year month) ts (int n),
       points = ps\<rparr> =
     Some \<lparr>plannedBalance = planned_upto (host_weekday z year month) ib ts (int n + 1),
       runningIncome = income_upto (host_weekday z year month) ts (int n + 1),
       runningExpenses = expenses_upto (host_weekday z year month) ts (int n + 1),
       points = ps @ [day_point (host_weekday z year month) ib ts es latest (int n + 1)]\<rparr>"
  unfolding simulate_day_def Let_def host_weekday_def [symmetric]
    forEach_smoothRates sim_state.simps prod.case
    actualValue_of_closed [OF assms] option.case
    planned_upto_Suc income_upto_Suc expenses_upto_Suc day_point_def
  by (rule refl)

lemma day_loop:
  assumes "case latest of None \<Rightarrow> True | Some l \<Rightarrow> whole_day_from (- (2 ^ 53) + 1) l"
    and "int n < 2 ^ 53 - 1"
  shows "run_days (simulate_day z year month ts es latest (smoothRates ts)) [1..int n]
     \<lparr>plannedBalance = ib, runningIncome = num 0, runningExpenses = num 0, points = []\<rparr> =
   Some \<lparr>plannedBalance = planned_upto (host_weekday z year month) ib ts (int n),
    runningIncome = income_upto (host_weekday z year month) ts (int n),
    runningExpenses = expenses_upto (host_weekday z year month) ts (int n),
    points = map (day_point (host_weekday z year month) ib ts es latest) [1..int n]\<rparr>"
  using assms(2)
proof (induction n)
  case 0
  show ?case
    by (simp add: planned_upto_def income_upto_def expenses_upto_def dsum_def)
next
  case (Suc n)
  then have n: "int n < 2 ^ 53 - 1" and n1: "int n + 1 < 2 ^ 53 - 1" by simp_all
  have s: "int (Suc n) = int n + 1" by simp
  have u: "[1..int n + 1] = [1..int n] @ [int n + 1]"
    using upto_snoc_nat [of n] by (simp add: add.commute)
  show ?case
    unfolding s u run_days_snoc Suc.IH [OF n] option.case
      simulate_day_closed [OF assms(1) n1] map_append list.map
    by (rule refl)
qed

lemma latestActual_of_Nil: "latestActual_of [] = Inr None"
  by (simp add: latestActual_of_def)

lemma latestActual_of_Cons:
  "latestActual_of (e # es) = Inr (Some (foldl later_entry e es))"
  by (simp add: latestActual_of_def reduce1_def)

lemma foldl_later_keep:
  "\<forall>x \<in> set xs. dlt (day x) (day a) \<Longrightarrow> foldl later_entry a xs = a"
  by (induction xs) (simp_all add: later_entry_def)

lemma foldl_later_mem: "foldl later_entry a xs \<in> set (a # xs)"
proof (induction xs arbitrary: a)
  case Nil
  show ?case by simp
next
  case (Cons x xs)
  from Cons [of "later_entry a x"] show ?case
    by (auto simp: later_entry_def split: if_splits)
qed

lemma latestActual_of_mem:
  assumes "latestActual_of es = Inr (Some l)"
  shows "l \<in> set es"
proof (cases es)
  case Nil
  with assms show ?thesis by (simp add: latestActual_of_Nil)
next
  case (Cons e es')
  with assms foldl_later_mem [of e es'] show ?thesis
    by (simp add: latestActual_of_Cons)
qed

lemma latestActual_of_Inr: "\<exists>latest. latestActual_of es = Inr latest"
  by (cases es) (simp_all add: latestActual_of_Nil latestActual_of_Cons)

lemma latestActual_of_last_max:
  assumes es: "es = pre @ l # post"
    and pre: "\<forall>x \<in> set pre. \<not> dlt (day l) (day x)"
    and post: "\<forall>x \<in> set post. dlt (day x) (day l)"
  shows "latestActual_of es = Inr (Some l)"
proof (cases pre)
  case Nil
  with es post show ?thesis
    by (simp add: latestActual_of_Cons foldl_later_keep)
next
  case (Cons p ps)
  have "foldl later_entry p ps \<in> set pre"
    using foldl_later_mem [of p ps] Cons by simp
  with pre have "\<not> dlt (day l) (day (foldl later_entry p ps))" by blast
  then have "later_entry (foldl later_entry p ps) l = l"
    by (simp add: later_entry_def)
  with es Cons post show ?thesis
    by (simp add: latestActual_of_Cons foldl_later_keep)
qed

lemma latest_whole:
  assumes "latestActual_of es = Inr latest" and "list_all (whole_day_from lo) es"
  shows "case latest of None \<Rightarrow> True | Some l \<Rightarrow> whole_day_from lo l"
proof (cases latest)
  case None
  then show ?thesis by simp
next
  case (Some l)
  then have "l \<in> set es"
    using assms(1) latestActual_of_mem by simp
  then show ?thesis
    using assms(2) Some by (simp add: list_all_iff)
qed

lemma whole_day_from_mono: "whole_day_from lo e \<Longrightarrow> lo' \<le> lo \<Longrightarrow> whole_day_from lo' e"
  by (cases "day e") (simp_all add: whole_day_from_def)

lemma calculateDailySimulation_closed:
  assumes latest: "latestActual_of es = Inr latest"
    and whole: "list_all (whole_day_from (- (2 ^ 53) + 1)) es"
    and n: "getDate z (new_Date z year (month + 1) 0) = Some n" "n < 2 ^ 53 - 1"
  shows "calculateDailySimulation z ib year month ts es =
     Some (Inr (map (day_point (host_weekday z year month) ib ts es latest) [1..n]))"
proof -
  note w = latest_whole [OF latest whole]
  show ?thesis
  proof (cases "n < 1")
    case True
    then show ?thesis
      using latest n by (simp add: calculateDailySimulation_def)
  next
    case False
    then have nn: "n = int (nat n)" by simp
    then have b: "int (nat n) < 2 ^ 53 - 1" using n(2) by simp
    show ?thesis
      unfolding calculateDailySimulation_def Let_def latest n(1) sum.case option.case
      by (subst nn, subst day_loop [OF w b]) (simp add: nn [symmetric])
  qed
qed

lemma calculateDailySimulation_invalid:
  assumes "getDate z (new_Date z year (month + 1) 0) = None"
  shows "calculateDailySimulation z ib year month ts es = Some (Inr [])"
  using assms latestActual_of_Inr [of es]
  by (auto simp add: calculateDailySimulation_def)

lemma simulate_day_no_entries:
  "simulate_day z year month ts [] None rates d s =
     Some (simulate_day_part002 z year month ts rates d s)"
  by (simp add: simulate_day_def simulate_day_part002_def actualValue_of_def Let_def
      split: prod.splits)

lemma run_days_total:
  assumes "\<And>d s. body d s = Some (body' d s)"
  shows "run_days body ds s = Some (fold body' ds s)"
  by (induction ds arbitrary: s) (simp_all add: assms)

lemma calculateDailySimulation_part002_eq:
  "calculateDailySimulation z ib year month ts [] =
     Some (Inr (calculateDailySimulation_part002 z ib year month ts))"
  by (simp add: calculateDailySimulation_def calculateDailySimulation_part002_def
      latestActual_of_Nil run_days_total [OF simulate_day_no_entries] Let_def
      split: option.splits)

lemma actualBalance_part002_step:
  "map actualBalance (points (simulate_day_part002 z year month ts rates d s)) =
     map actualBalance (points s) @ [None]"
  by (simp add: simulate_day_part002_def Let_def split: prod.splits)

lemma actualBalance_part002_fold:
  "map actualBalance (points (fold (simulate_day_part002 z year month ts rates) ds s)) =
     map actualBalance (points s) @ replicate (length ds) None"
  by (induction ds arbitrary: s)
     (simp_all add: actualBalance_part002_step replicate_append_same)

lemma length_part002_step:
  "length (points (simulate_day_part002 z year month ts rates d s)) = Suc (length (points s))"
  by (simp add: simulate_day_part002_def Let_def split: prod.splits)

lemma length_part002_fold:
  "length (points (fold (simulate_day_part002 z year month ts rates) ds s)) =
     length (points s) + length ds"
  by (induction ds arbitrary: s) (simp_all add: length_part002_step)

lemma regular_month_utc: "regular_month utc_zone year month"
  by (simp add: regular_month_def keeps_day_utc list_all_iff)

lemma calendar_days_in_month_bounds:
  "28 \<le> calendar_days_in_month year month \<and> calendar_days_in_month year month \<le> 31"
  by (simp add: calendar_days_in_month_def)

lemma host_days_in_month:
  assumes "valid_year_month year month" "regular_month z year month"
  shows "getDate z (new_Date z year (month + 1) 0) = Some (calendar_days_in_month year month)"
  using assms by (simp add: getDate_last regular_month_def)

lemma host_weekday_calendar:
  assumes "100 \<le> year" "valid_year_month year month" "regular_month z year month"
    and "1 \<le> d" "d \<le> 31"
  shows "host_weekday z year month d = calendar_dow year month d"
proof -
  have "d \<in> set [1..31]" using assms(4,5) by simp
  then have "keeps_day z (local_midnight year month d)"
    using assms(3) unfolding regular_month_def list_all_iff by blast
  then show ?thesis
    using assms
    by (simp add: host_weekday_def calendar_dow_def valid_year_month_def getDay_calendar)
qed

lemma contributions_cong:
  "dowf d = dowg d \<Longrightarrow> contributions dowf ts d = contributions dowg ts d"
  by (simp add: contributions_def)

lemma income_parts_cong:
  "dowf d = dowg d \<Longrightarrow> income_parts dowf ts d = income_parts dowg ts d"
  by (simp add: income_parts_def)

lemma expense_parts_cong:
  "dowf d = dowg d \<Longrightarrow> expense_parts dowf ts d = expense_parts dowg ts d"
  by (simp add: expense_parts_def)

lemma planned_upto_cong:
  assumes "\<And>k. 1 \<le> k \<Longrightarrow> k \<le> d \<Longrightarrow> dowf k = dowg k"
  shows "planned_upto dowf ib ts d = planned_upto dowg ib ts d"
  unfolding planned_upto_def
proof (rule foldl_cong [OF refl refl])
  fix b k assume "k \<in> set [1..d]"
  then have "dowf k = dowg k" using assms by simp
  then have "contributions dowf ts k = contributions dowg ts k"
    by (rule contributions_cong)
  then show "dadd b (dsum (contributions dowf ts k)) = dadd b (dsum (contributions dowg ts k))"
    by (simp only:)
qed

lemma income_upto_cong:
  assumes "\<And>k. 1 \<le> k \<Longrightarrow> k \<le> d \<Longrightarrow> dowf k = dowg k"
  shows "income_upto dowf ts d = income_upto dowg ts d"
proof -
  have "map (income_parts dowf ts) [1..d] = map (income_parts dowg ts) [1..d]"
    by (rule map_cong [OF refl], rule income_parts_cong) (simp add: assms)
  then show ?thesis by (simp only: income_upto_def)
qed

lemma expenses_upto_cong:
  assumes "\<And>k. 1 \<le> k \<Longrightarrow> k \<le> d \<Longrightarrow> dowf k = dowg k"
  shows "expenses_upto dowf ts d = expenses_upto dowg ts d"
proof -
  have "map (expense_parts dowf ts) [1..d] = map (expense_parts dowg ts) [1..d]"
    by (rule map_cong [OF refl], rule expense_parts_cong) (simp add: assms)
  then show ?thesis by (simp only: expenses_upto_def)
qed

lemma projected_from_cong:
  assumes "\<And>k. k \<le> d \<Longrightarrow> dowf k = dowg k"
  shows "projected_from dowf ts l d = projected_from dowg ts l d"
proof -
  have "map (contributions dowf ts) [day_of l + 1..d] = map (contributions dowg ts) [day_of l + 1..d]"
    by (rule map_cong [OF refl], rule contributions_cong) (use assms in simp)
  then show ?thesis by (simp only: projected_from_def)
qed

lemma actual_upto_cong:
  assumes "\<And>k. k \<le> d \<Longrightarrow> dowf k = dowg k"
  shows "actual_upto dowf ts es latest d = actual_upto dowg ts es latest d"
proof -
  have "projected_from dowf ts l d = projected_from dowg ts l d" for l
    by (rule projected_from_cong [OF assms])
  then show ?thesis
    by (cases "find (\<lambda>e. js_eq (day e) (num d)) es"; cases latest)
       (simp_all add: actual_upto_def)
qed

lemma day_point_cong:
  assumes "\<And>k. k \<le> d \<Longrightarrow> dowf k = dowg k"
  shows "day_point dowf ib ts es latest d = day_point dowg ib ts es latest d"
proof -
  have c: "contributions dowf ts d = contributions dowg ts d"
    by (rule contributions_cong) (simp add: assms)
  show ?thesis
    unfolding day_point_def c
    by (simp only: planned_upto_cong [OF assms] income_upto_cong [OF assms]
        expenses_upto_cong [OF assms] actual_upto_cong [OF assms])
qed

lemma host_weekday_month:
  assumes "100 \<le> year" "valid_year_month year month" "regular_month z year month" "d \<le> 31"
  shows "host_weekday z year month d = month_dow z year month d"
  using host_weekday_calendar [OF assms(1,2,3) _ assms(4)] by (simp add: month_dow_def)

lemma calculateDailySimulation_calendar:
  assumes y: "100 \<le> year" and v: "valid_year_month year month"
    and r: "regular_month z year month"
    and latest: "latestActual_of es = Inr latest"
    and whole: "list_all (whole_day_from (- (2 ^ 53) + 1)) es"
  shows "calculateDailySimulation z ib year month ts es =
     Some (Inr (map (day_point (month_dow z year month) ib ts es latest)
                  [1..calendar_days_in_month year month]))"
proof -
  note b = calendar_days_in_month_bounds [of year month]
  have n: "calendar_days_in_month year month < 2 ^ 53 - 1"
    using b by simp
  have "map (day_point (host_weekday z year month) ib ts es latest)
      [1..calendar_days_in_month year month] =
    map (day_point (month_dow z year month) ib ts es latest)
      [1..calendar_days_in_month year month]"
  proof (rule map_cong [OF refl])
    fix d assume "d \<in> set [1..calendar_days_in_month year month]"
    then have d: "d \<le> 31" using b by simp
    show "day_point (host_weekday z year month) ib ts es latest d =
        day_point (month_dow z year month) ib ts es latest d"
    proof (rule day_point_cong)
      fix k assume "k \<le> d"
      then show "host_weekday z year month k = month_dow z year month k"
        using d by (intro host_weekday_month [OF y v r]) simp
    qed
  qed
  then show ?thesis
    using calculateDailySimulation_closed [OF latest whole host_days_in_month [OF v r] n]
    by simp
qed

lemma nth_upto_map:
  assumes "1 \<le> d" "d \<le> n"
  shows "map f [1..n] ! nat (d - 1) = f d"
  using assms by simp

lemma whole_days_num:
  assumes "list_all (whole_day_from lo) es" "e \<in> set es"
  shows "day e = num (day_of e)" "lo \<le> day_of e"
  using assms whole_day_from_num [of lo e] by (simp_all add: list_all_iff)

lemma max_day_exists:
  assumes "es \<noteq> []"
  shows "\<exists>e \<in> set es. \<forall>x \<in> set es. day_of x \<le> day_of e"
proof -
  have "finite (day_of ` set es)" "day_of ` set es \<noteq> {}"
    using assms by simp_all
  then have "Max (day_of ` set es) \<in> day_of ` set es"
    by (rule Max_in)
  then obtain e where e: "e \<in> set es" "day_of e = Max (day_of ` set es)"
    by auto
  have "\<forall>x \<in> set es. day_of x \<le> day_of e"
    unfolding e(2) by simp
  with e(1) show ?thesis by blast
qed

lemma last_max_entry_split:
  assumes "es \<noteq> []"
  obtains l pre post where "last_max_entry es = Some l" "es = pre @ l # post"
    "\<forall>x \<in> set pre. day_of x \<le> day_of l" "\<forall>x \<in> set post. day_of x < day_of l"
proof -
  define P where "P = (\<lambda>e. list_all (\<lambda>x. day_of x \<le> day_of e) es)"
  obtain m where m: "m \<in> set es" "\<forall>x \<in> set es. day_of x \<le> day_of m"
    using max_day_exists [OF assms] by blast
  then have Pm: "P m" by (simp add: P_def list_all_iff)
  then have "\<exists>x \<in> set es. P x" using m(1) by blast
  then obtain pre l post where s: "es = pre @ l # post" "P l" "\<forall>x \<in> set post. \<not> P x"
    using split_list_last_prop [of es P] by blast
  have fl: "filter P es = filter P pre @ [l]"
    using s by (simp add: filter_empty_conv)
  have l: "last_max_entry es = Some l"
    using assms by (simp add: last_max_entry_def P_def [symmetric] fl)
  have max: "\<forall>x \<in> set es. day_of x \<le> day_of l"
    using s(2) by (simp add: P_def list_all_iff)
  have pre: "\<forall>x \<in> set pre. day_of x \<le> day_of l"
    using max s(1) by simp
  have post: "\<forall>x \<in> set post. day_of x < day_of l"
  proof
    fix x assume x: "x \<in> set post"
    then have "\<not> P x" using s(3) by blast
    then obtain y where "y \<in> set es" "day_of x < day_of y"
      by (auto simp add: P_def list_all_iff not_le)
    then show "day_of x < day_of l"
      using max by fastforce
  qed
  from that [OF l s(1) pre post] show ?thesis .
qed

lemma latestActual_of_whole:
  assumes "list_all (whole_day_from lo) es"
  shows "latestActual_of es = Inr (last_max_entry es)"
proof (cases "es = []")
  case True
  then show ?thesis by (simp add: latestActual_of_Nil last_max_entry_def)
next
  case False
  then obtain l pre post where s: "last_max_entry es = Some l" "es = pre @ l # post"
    "\<forall>x \<in> set pre. day_of x \<le> day_of l" "\<forall>x \<in> set post. day_of x < day_of l"
    by (rule last_max_entry_split)
  have l: "day l = num (day_of l)"
    using whole_days_num(1) [OF assms, of l] s(2) by simp
  have pre: "\<forall>x \<in> set pre. \<not> dlt (day l) (day x)"
  proof
    fix x assume x: "x \<in> set pre"
    then have "day x = num (day_of x)"
      using whole_days_num(1) [OF assms, of x] s(2) by simp
    moreover have "day_of x \<le> day_of l"
      using s(3) x by blast
    ultimately show "\<not> dlt (day l) (day x)"
      using l by simp
  qed
  have post: "\<forall>x \<in> set post. dlt (day x) (day l)"
  proof
    fix x assume x: "x \<in> set post"
    then have "day x = num (day_of x)"
      using whole_days_num(1) [OF assms, of x] s(2) by simp
    moreover have "day_of x < day_of l"
      using s(4) x by blast
    ultimately show "dlt (day x) (day l)"
      using l by simp
  qed
  show ?thesis
    unfolding s(1) by (rule latestActual_of_last_max [OF s(2) pre post])
qed

lemma find_whole:
  assumes "list_all (whole_day_from lo) es"
  shows "find (\<lambda>e. js_eq (day e) (num d)) es = first_on_day es d"
  unfolding first_on_day_def
proof (rule find_cong [OF refl])
  fix e assume "e \<in> set es"
  then have "day e = num (day_of e)"
    using whole_days_num(1) [OF assms] by simp
  then show "js_eq (day e) (num d) = (day_of e = d)"
    by simp
qed

lemma last_max_entry_mem: "last_max_entry es = Some l \<Longrightarrow> l \<in> set es"
proof (cases "es = []")
  case True
  then show "last_max_entry es = Some l \<Longrightarrow> l \<in> set es"
    by (simp add: last_max_entry_def)
next
  case False
  then obtain l' pre post where "last_max_entry es = Some l'" "es = pre @ l' # post"
    by (rule last_max_entry_split)
  then show "last_max_entry es = Some l \<Longrightarrow> l \<in> set es"
    by simp
qed

lemma actualBalance_day_point:
  assumes "list_all (whole_day_from lo) es"
  shows "actualBalance (day_point (month_dow z year month) ib ts es (last_max_entry es) d) =
     (case first_on_day es d of
        Some e \<Rightarrow> Some (round_100 (value e))
      | None \<Rightarrow>
          (case last_max_entry es of
             None \<Rightarrow> None
           | Some l \<Rightarrow>
               if day_of l < d
               then Some (round_100 (dadd (value l) (projected_sum z year month ts (day_of l) d)))
               else None))"
proof (cases "last_max_entry es")
  case None
  then show ?thesis
    by (simp add: day_point_def actual_upto_def find_whole [OF assms] split: option.splits)
next
  case (Some l)
  then have "day l = num (day_of l)"
    using whole_days_num(1) [OF assms] last_max_entry_mem by blast
  then have "dlt (day l) (num d) \<longleftrightarrow> day_of l < d"
    by simp
  then show ?thesis
    using Some
    by (simp add: day_point_def actual_upto_def find_whole [OF assms] projected_from_def
        projected_sum_def split: option.splits)
qed

lemma planned_fields_day_point:
  assumes "1 \<le> d"
  shows "balance (day_point (month_dow z year month) ib ts es latest d) =
       round_100 (planned_upto (calendar_dow year month) ib ts d)"
    and "dailyDelta (day_point (month_dow z year month) ib ts es latest d) =
       round_100 (dsum (contributions (calendar_dow year month) ts d))"
    and "cumulativeIncome (day_point (month_dow z year month) ib ts es latest d) =
       round_100 (income_upto (calendar_dow year month) ts d)"
    and "cumulativeExpenses (day_point (month_dow z year month) ib ts es latest d) =
       round_100 (expenses_upto (calendar_dow year month) ts d)"
proof -
  have a: "\<And>k. 1 \<le> k \<Longrightarrow> k \<le> d \<Longrightarrow> month_dow z year month k = calendar_dow year month k"
    by (simp add: month_dow_def)
  have c: "contributions (month_dow z year month) ts d = contributions (calendar_dow year month) ts d"
    by (rule contributions_cong) (simp add: a assms)
  show "balance (day_point (month_dow z year month) ib ts es latest d) =
       round_100 (planned_upto (calendar_dow year month) ib ts d)"
    by (simp add: day_point_def planned_upto_cong [OF a])
  show "dailyDelta (day_point (month_dow z year month) ib ts es latest d) =
       round_100 (dsum (contributions (calendar_dow year month) ts d))"
    by (simp add: day_point_def c)
  show "cumulativeIncome (day_point (month_dow z year month) ib ts es latest d) =
       round_100 (income_upto (calendar_dow year month) ts d)"
    by (simp add: day_point_def income_upto_cong [OF a])
  show "cumulativeExpenses (day_point (month_dow z year month) ib ts es latest d) =
       round_100 (expenses_upto (calendar_dow year month) ts d)"
    by (simp add: day_point_def expenses_upto_cong [OF a])
qed

lemma point_calendar:
  assumes y: "100 \<le> year" and v: "valid_year_month year month"
    and r: "regular_month z year month"
    and whole: "list_all (whole_day_from (- (2 ^ 53) + 1)) es"
    and d: "1 \<le> d" "d \<le> calendar_days_in_month year month"
  shows "\<exists>ps. calculateDailySimulation z ib year month ts es = Some (Inr ps)
     \<and> int (length ps) = calendar_days_in_month year month
     \<and> ps ! nat (d - 1) = day_point (month_dow z year month) ib ts es (last_max_entry es) d"
  using calculateDailySimulation_calendar [OF y v r latestActual_of_whole [OF whole] whole, of ib ts]
    d nth_upto_map [OF d]
  by simp

lemma point_host:
  assumes v: "valid_year_month year month"
    and k: "keeps_day z (local_midnight year (month + 1) 0)"
    and whole: "list_all (whole_day_from (- (2 ^ 53) + 1)) es"
    and d: "1 \<le> d" "d \<le> calendar_days_in_month year month"
  shows "\<exists>ps. calculateDailySimulation z ib year month ts es = Some (Inr ps)
     \<and> int (length ps) = calendar_days_in_month year month
     \<and> ps ! nat (d - 1) = day_point (host_weekday z year month) ib ts es (last_max_entry es) d"
proof -
  note b = calendar_days_in_month_bounds [of year month]
  have n: "calendar_days_in_month year month < 2 ^ 53 - 1"
    using b by simp
  show ?thesis
    using calculateDailySimulation_closed
        [OF latestActual_of_whole [OF whole] whole getDate_last [OF v k] n, of ib ts]
      d nth_upto_map [OF d]
    by simp
qed

lemma nth_point_host:
  assumes v: "valid_year_month year month"
    and k: "keeps_day z (local_midnight year (month + 1) 0)"
    and whole: "list_all (whole_day_from (- (2 ^ 53) + 1)) es"
    and d: "1 \<le> d" "d \<le> calendar_days_in_month year month"
  shows "projr (the (calculateDailySimulation z ib year month ts es)) ! nat (d - 1) =
     day_point (host_weekday z year month) ib ts es (last_max_entry es) d"
  using point_host [OF assms, of ib ts] by auto

lemma calendar_weekday_MakeDay:
  assumes "0 \<le> m" "m \<le> 11"
  shows "calendar_weekday y m d = (4 + MakeDay y m d) mod 7"
  by (simp add: calendar_weekday_def MakeDay_calendar [OF assms])

lemmas date_eval = MakeDay_def DayFromYear_def month_start_def leap_offset_def InLeapYear_def
  DaysInYear_def Date_year_def new_Date_def getDay_def getDate_def LocalTime_def Day_def
  msPerDay_def WeekDay_def host_weekday_def calendar_dow_def Let_def

lemma days_in_december_1994_kiritimati:
  "getDate zone_kiritimati (new_Date zone_kiritimati 1994 (11 + 1) 0) = Some 1"
proof -
  have m: "MonthFromTime (DayFromYear 1995) = 0"
    using MonthFromTime_in_year [of 0 1995] by (simp add: DaysInYear_def Let_def)
  have "DateFromTime (DayFromYear 1995) = 1"
    using DateFromTime_in_year [of 0 1995] by (simp add: m DaysInYear_def Let_def)
  moreover have "DayFromYear 1995 = 9131" by (simp add: DayFromYear_def)
  ultimately have "DateFromTime 9131 = 1" by simp
  then show ?thesis
    by (simp add: new_Date_def MakeDay_def DayFromYear_def month_start_def leap_offset_def
       InLeapYear_def Date_year_def getDate_def LocalTime_def Day_def msPerDay_def
       zone_kiritimati_def Let_def)
qed

lemma round_100_zero: "round_100 (num 0) = num 0"
  by (simp add: round_100_def dbl_eval)

lemma whole_day_from_num_entry:
  "whole_day_from lo \<lparr>day = num k, value = v\<rparr> \<longleftrightarrow> lo \<le> k"
  by (simp add: whole_day_from_def num_def)

lemma day_of_num_entry: "day_of \<lparr>day = num k, value = v\<rparr> = k"
  by (simp add: day_of_def num_def)

section \<open>Inputs on which the host calendar and the loops leave the specification\<close>

lemma actualValue_of_stuck:
  "actualValue_of z year month ts [stuck_entry] (Some stuck_entry) 1 = None"
  by (simp add: actualValue_of_def stuck_entry_def dadd_stuck
      projection_loop_diverges [OF dadd_stuck])

lemma calculateDailySimulation_stuck:
  assumes n: "getDate z (new_Date z year (month + 1) 0) = Some n" "1 \<le> n"
  shows "calculateDailySimulation z ib year month ts [stuck_entry] = None"
proof -
  have l: "latestActual_of [stuck_entry] = Inr (Some stuck_entry)"
    by (simp add: latestActual_of_Cons)
  have u: "[1..n] = 1 # [1 + 1..n]"
    using n(2) by (simp add: upto_rec1)
  show ?thesis
    unfolding calculateDailySimulation_def Let_def l n(1) sum.case option.case u
    by (simp add: simulate_day_def actualValue_of_stuck Let_def split: prod.splits)
qed

lemma days_in_january_2025_utc: "getDate utc_zone (new_Date utc_zone 2025 (0 + 1) 0) = Some 31"
  using getDate_last [of 2025 0 utc_zone]
  by (simp add: valid_year_month_def keeps_day_utc calendar_days_in_month_def)

lemma stuck_entry_never_returns:
  "calculateDailySimulation utc_zone (num 0) 2025 0 ts [stuck_entry] = None"
  by (rule calculateDailySimulation_stuck [OF days_in_january_2025_utc]) simp

lemma kiritimati_december_1994:
  "map dayNumber (projr (the (calculateDailySimulation zone_kiritimati (num 0) 1994 11 [] []))) = [1]"
proof -
  have "calculateDailySimulation zone_kiritimati (num 0) 1994 11 [] [] =
      Some (Inr (map (day_point (host_weekday zone_kiritimati 1994 11) (num 0) [] [] None) [1..1]))"
    by (rule calculateDailySimulation_closed
          [OF latestActual_of_Nil _ days_in_december_1994_kiritimati]) simp_all
  then show ?thesis
    by (simp add: day_point_def)
qed

lemma round_100_fifty: "round_100 (dadd (num 0) (num 50)) = num 50"
  by (simp add: round_100_def dbl_eval)

lemma year_50_sunday:
  "dailyDelta (projr (the (calculateDailySimulation utc_zone (num 0) 50 0 [example_sunday_rule] [])) ! 0)
     = num 50
   \<and> calendar_weekday 50 0 1 = 6
   \<and> contributions (calendar_dow 50 0) [example_sunday_rule] 1 = []"
proof -
  have w: "host_weekday utc_zone 50 0 1 = Some 0"
    by (simp add: date_eval utc_zone_def)
  have c: "calendar_weekday 50 0 1 = 6"
    by (simp add: calendar_weekday_MakeDay date_eval)
  have "projr (the (calculateDailySimulation utc_zone (num 0) 50 0 [example_sunday_rule] [])) ! nat (1 - 1) =
      day_point (host_weekday utc_zone 50 0) (num 0) [example_sunday_rule] [] (last_max_entry []) 1"
    by (rule nth_point_host)
       (simp_all add: valid_year_month_def keeps_day_utc calendar_days_in_month_def)
  then have "dailyDelta (projr (the (calculateDailySimulation utc_zone (num 0) 50 0
        [example_sunday_rule] [])) ! 0) = num 50"
    by (simp add: day_point_def contributions_def fires_on_def w weekday_is_def targetDow_def
        example_sunday_rule_def signed_contribution_def magnitude_def dsum_def round_100_fifty)
  moreover have "contributions (calendar_dow 50 0) [example_sunday_rule] 1 = []"
    by (simp add: contributions_def fires_on_def calendar_dow_def c weekday_is_def targetDow_def
        example_sunday_rule_def)
  ultimately show ?thesis
    using c by simp
qed

lemma apia_december_2011:
  "dailyDelta (projr (the (calculateDailySimulation zone_apia (num 0) 2011 11 [example_friday_rule] [])) ! 29)
     = num 0
   \<and> calendar_weekday 2011 11 30 = 5
   \<and> contributions (calendar_dow 2011 11) [example_friday_rule] 30 = [num 50]"
proof -
  have w: "host_weekday zone_apia 2011 11 30 = Some 6"
    by (simp add: date_eval zone_apia_def)
  have c: "calendar_weekday 2011 11 30 = 5"
    by (simp add: calendar_weekday_MakeDay date_eval)
  have k: "keeps_day zone_apia (local_midnight 2011 (11 + 1) 0)"
    by (simp add: keeps_day_def local_midnight_def date_eval zone_apia_def)
  have n: "nat (30 - 1) = 29" by simp
  have "projr (the (calculateDailySimulation zone_apia (num 0) 2011 11 [example_friday_rule] [])) ! nat (30 - 1) =
      day_point (host_weekday zone_apia 2011 11) (num 0) [example_friday_rule] [] (last_max_entry []) 30"
    by (rule nth_point_host [OF _ k])
       (simp_all add: valid_year_month_def calendar_days_in_month_def)
  then have "dailyDelta (projr (the (calculateDailySimulation zone_apia (num 0) 2011 11
        [example_friday_rule] [])) ! 29) = num 0"
    unfolding n
    by (simp add: day_point_def contributions_def fires_on_def w weekday_is_def targetDow_def
        example_friday_rule_def dsum_def round_100_zero)
  moreover have "contributions (calendar_dow 2011 11) [example_friday_rule] 30 = [num 50]"
    by (simp add: contributions_def fires_on_def calendar_dow_def c weekday_is_def targetDow_def
        example_friday_rule_def signed_contribution_def magnitude_def)
  ultimately show ?thesis
    using c by simp
qed

section \<open>C8: the engine of \<^verbatim>\<open>part_002\<close> is the engine with no observed entries\<close>

text \<open>
  C8. For every initial balance, year, month and list of rules, \<open>calculateDailySimulation\<close>
  called with the empty list of observed entries returns the very sequence of points that
  the version of \<^verbatim>\<open>part_002\<close>, which has no reconciliation with observed entries, returns:
  the same \<open>date\<close>, \<open>dayNumber\<close>, \<open>balance\<close>, \<open>dailyDelta\<close>, \<open>cumulativeIncome\<close> and
  \<open>cumulativeExpenses\<close>, and \<open>actualBalance\<close> absent on every point. This holds in every
  host time zone.
\<close>

theorem part002_refinement:
  "calculateDailySimulation z ib year month ts [] =
     Some (Inr (calculateDailySimulation_part002 z ib year month ts))
   \<and> map actualBalance (calculateDailySimulation_part002 z ib year month ts) =
     replicate (length (calculateDailySimulation_part002 z ib year month ts)) None"
proof -
  have "map actualBalance (calculateDailySimulation_part002 z ib year month ts) =
      replicate (length (calculateDailySimulation_part002 z ib year month ts)) None"
    by (simp add: calculateDailySimulation_part002_def Let_def actualBalance_part002_fold
        length_part002_fold split: option.splits)
  with calculateDailySimulation_part002_eq show ?thesis by blast
qed

section \<open>C2: the length of the result\<close>

lemma dadd_zero_zero: "dadd (num 0) (num 0) = num 0"
  by (simp add: dadd_def num_def)

lemma planned_upto_no_rules_zero: "planned_upto dowf (num 0) [] (int n) = num 0"
proof (induction n)
  case 0
  show ?case by (simp add: planned_upto_def)
next
  case (Suc n)
  have "planned_upto dowf (num 0) [] (int n + 1) = num 0"
    unfolding planned_upto_Suc Suc
    by (simp add: contributions_def dsum_def dadd_zero_zero)
  then show ?case by (simp add: add.commute)
qed

text \<open>
  C2, as the code has it. Let the year be from 1 to 275759 and the month index from 0 to 11,
  let the host time zone keep the local midnight of the last day of the month (which the code
  asks for as day 0 of the following month) on its own calendar day, and let the day of every
  observed entry be a whole number above \<open>-2\<^sup>5\<^sup>3\<close>. Then for every initial balance and every
  list of rules, the empty one too, \<open>calculateDailySimulation\<close> returns, it raises nothing, and
  the number of points it returns is the number of days of the month in the Gregorian
  calendar, 29 for February of a leap year and 28 otherwise.
\<close>

theorem calculateDailySimulation_length:
  assumes "valid_year_month year month"
    and "keeps_day z (local_midnight year (month + 1) 0)"
    and "list_all (whole_day_from (- (2 ^ 53) + 1)) es"
  shows "\<exists>ps. calculateDailySimulation z ib year month ts es = Some (Inr ps)
     \<and> int (length ps) = calendar_days_in_month year month"
proof -
  obtain latest where latest: "latestActual_of es = Inr latest"
    using latestActual_of_Inr by blast
  note b = calendar_days_in_month_bounds [of year month]
  have n: "calendar_days_in_month year month < 2 ^ 53 - 1"
    using b by simp
  show ?thesis
    using calculateDailySimulation_closed [OF latest assms(3) getDate_last [OF assms(1,2)] n] b
    by simp
qed

theorem calculateDailySimulation_length_witness:
  "(\<exists>ps. calculateDailySimulation utc_zone (num 100) 2024 1 [example_smooth_rule] [example_entry] =
          Some (Inr ps) \<and> int (length ps) = 29)
   \<and> (\<exists>ps. calculateDailySimulation utc_zone (num 100) 2025 1 [example_smooth_rule] [example_entry] =
          Some (Inr ps) \<and> int (length ps) = 28)"
  using calculateDailySimulation_length
      [of 2024 1 utc_zone "[example_entry]" "num 100" "[example_smooth_rule]"]
    calculateDailySimulation_length
      [of 2025 1 utc_zone "[example_entry]" "num 100" "[example_smooth_rule]"]
  by (simp add: valid_year_month_def keeps_day_utc example_entry_def whole_day_from_num_entry
      calendar_days_in_month_def calendar_leap_year_def)

text \<open>
  The claim as written fails in two ways. With the single observed entry of day \<open>-10\<^sup>1\<^sup>7\<close>
  the loop \<^verbatim>\<open>for (let d = latestActual.day + 1; d <= day; d++)\<close> never advances, since
  \<open>-10\<^sup>1\<^sup>7 + 1\<close> is \<open>-10\<^sup>1\<^sup>7\<close> in floating point, and the call does not return. In the time zone
  of Kiritimati, where 31 December 1994 was skipped, December 1994 gets the single point of
  day 1, while the month has 31 days.
\<close>

theorem length_counterexample:
  "calculateDailySimulation utc_zone (num 0) 2025 0 [] [stuck_entry] = None
   \<and> calculateDailySimulation zone_kiritimati (num 0) 1994 11 [] [] =
       Some (Inr [\<lparr>date = ''1'', dayNumber = 1, balance = num 0, actualBalance = None,
                   dailyDelta = num 0, cumulativeIncome = num 0, cumulativeExpenses = num 0\<rparr>])
   \<and> calendar_days_in_month 1994 11 = 31"
proof -
  have january: "getDate utc_zone (new_Date utc_zone 2025 (0 + 1) 0) = Some 31"
    using getDate_last [of 2025 0 utc_zone]
    by (simp add: valid_year_month_def keeps_day_utc calendar_days_in_month_def)
  have stuck: "calculateDailySimulation utc_zone (num 0) 2025 0 [] [stuck_entry] = None"
    by (rule calculateDailySimulation_stuck [OF january]) simp
  have "calculateDailySimulation zone_kiritimati (num 0) 1994 11 [] [] =
      Some (Inr (map (day_point (host_weekday zone_kiritimati 1994 11) (num 0) [] [] None) [1..1]))"
    by (rule calculateDailySimulation_closed
          [OF latestActual_of_Nil _ days_in_december_1994_kiritimati]) simp_all
  moreover have "planned_upto (host_weekday zone_kiritimati 1994 11) (num 0) [] 1 = num 0"
    using planned_upto_no_rules_zero [of _ 1] by simp
  ultimately have kiritimati: "calculateDailySimulation zone_kiritimati (num 0) 1994 11 [] [] =
       Some (Inr [\<lparr>date = ''1'', dayNumber = 1, balance = num 0, actualBalance = None,
                   dailyDelta = num 0, cumulativeIncome = num 0, cumulativeExpenses = num 0\<rparr>])"
    by (simp add: day_point_def actual_upto_def income_upto_def expenses_upto_def
        contributions_def income_parts_def expense_parts_def dsum_def round_100_zero
        string_of_int_def string_of_nat.simps digit_char_def)
  show ?thesis
    using stuck kiritimati by (simp add: calendar_days_in_month_def)
qed

section \<open>C7: no rules\<close>








section \<open>C1: the daily delta and the running totals\<close>

lemma planned_point_calendar:
  assumes y: "100 \<le> year" and v: "valid_year_month year month"
    and r: "regular_month z year month"
    and whole: "list_all (whole_day_from (- (2 ^ 53) + 1)) es"
    and d: "1 \<le> d" "d \<le> calendar_days_in_month year month"
  shows "\<exists>ps. calculateDailySimulation z ib year month ts es = Some (Inr ps)
     \<and> int (length ps) = calendar_days_in_month year month
     \<and> balance (ps ! nat (d - 1)) = round_100 (planned_upto (calendar_dow year month) ib ts d)
     \<and> dailyDelta (ps ! nat (d - 1)) =
         round_100 (dsum (contributions (calendar_dow year month) ts d))
     \<and> cumulativeIncome (ps ! nat (d - 1)) =
         round_100 (income_upto (calendar_dow year month) ts d)
     \<and> cumulativeExpenses (ps ! nat (d - 1)) =
         round_100 (expenses_upto (calendar_dow year month) ts d)"
  using point_calendar [OF assms, of ib ts]
    planned_fields_day_point [OF d(1), of z year month ib ts es "last_max_entry es"]
  by auto

lemma smooth_rate_value:
  "ddiv (num 10) (num 7) = Finite (6433713753386423 / 4503599627370496)"
  by (simp add: dbl_eval)

lemma smooth_delta_rounded:
  "round_100 (dadd (num 0) (dneg (ddiv (num 10) (num 7)))) = lit (- 143 / 100)"
  unfolding smooth_rate_value by (simp add: round_100_def dbl_eval)

lemma smooth_delta_differs:
  "lit (- 143 / 100) \<noteq> dadd (num 0) (dneg (ddiv (num 10) (num 7)))"
  unfolding smooth_rate_value by (simp add: dbl_eval)

lemma contributions_example_smooth_rule:
  "contributions dowf [example_smooth_rule] d = [dneg (ddiv (num 10) (num 7))]"
  by (simp add: contributions_def fires_on_def example_smooth_rule_def signed_contribution_def
      magnitude_def)

text \<open>
  C1, as the code has it. Let the year be from 100 to 275759 and the month index from 0 to 11,
  let the host time zone skip no day of the month (every local midnight of the month falls on
  its own calendar day), and let the day of every observed entry be a whole number above
  \<open>-2\<^sup>5\<^sup>3\<close>. Then the call returns one point for every day of the month, and for every day \<open>d\<close>
  the stored \<open>dailyDelta\<close> is \<open>Math.round(x * 100) / 100\<close> where \<open>x\<close> is the floating-point sum,
  from 0 and in the order of the list, of the signed contributions of the rules that fire
  on day \<open>d\<close>. A Once rule fires iff its \<open>dayOfMonth\<close> is \<open>d\<close>, so a rule whose day is beyond
  the length of the month never fires; a Weekly rule with the Smooth distribution fires
  every day and contributes a seventh of its amount; any other Weekly rule fires iff the
  weekday of \<open>(year, month, d)\<close> in the Gregorian calendar is its \<open>dayOfWeek\<close>, read as 1 when
  the field is absent. The sign is plus for Income and minus otherwise. The stored
  \<open>cumulativeIncome\<close> is the rounding of the floating-point sum, over the days 1 to \<open>d\<close> and
  in each day over the rules in order, of the magnitudes of the firing Income rules, and the
  stored \<open>cumulativeExpenses\<close> that of the magnitudes of the other firing rules (Saving is on
  the expense side).
\<close>

theorem dailyDelta_rounded_sum:
  assumes "100 \<le> year" and "valid_year_month year month"
    and "regular_month z year month"
    and "list_all (whole_day_from (- (2 ^ 53) + 1)) es"
    and "1 \<le> d" and "d \<le> calendar_days_in_month year month"
  shows "\<exists>ps. calculateDailySimulation z ib year month ts es = Some (Inr ps)
     \<and> int (length ps) = calendar_days_in_month year month
     \<and> dailyDelta (ps ! nat (d - 1)) =
         round_100 (dsum (contributions (calendar_dow year month) ts d))
     \<and> cumulativeIncome (ps ! nat (d - 1)) =
         round_100 (income_upto (calendar_dow year month) ts d)
     \<and> cumulativeExpenses (ps ! nat (d - 1)) =
         round_100 (expenses_upto (calendar_dow year month) ts d)
     \<and> (frequency t = ONCE \<and> dayOfMonth t = num k \<and> calendar_days_in_month year month < k
          \<longrightarrow> \<not> fires_on (calendar_dow year month d) d t)"
proof -
  have "\<not> fires_on (calendar_dow year month d) d t"
    if "frequency t = ONCE" "dayOfMonth t = num k" "calendar_days_in_month year month < k"
    using that assms(6) by (simp add: fires_on_def)
  with planned_point_calendar [OF assms, of ib ts] show ?thesis
    by auto
qed

theorem dailyDelta_rounded_sum_witness:
  "\<exists>ps. calculateDailySimulation utc_zone (num 0) 2025 1 [example_smooth_rule, example_once_rule]
         [example_entry] = Some (Inr ps)
     \<and> int (length ps) = 28
     \<and> dailyDelta (ps ! 1) = lit (- 143 / 100)
     \<and> cumulativeIncome (ps ! 1) = num 0
     \<and> cumulativeExpenses (ps ! 1) = lit (286 / 100)
     \<and> \<not> fires_on (calendar_dow 2025 1 2) 2 example_once_rule"
proof -
  have once: "frequency example_once_rule = ONCE" "dayOfMonth example_once_rule = num 31"
    by (simp_all add: example_once_rule_def)
  have n: "calendar_days_in_month 2025 1 = 28"
    by (simp add: calendar_days_in_month_def calendar_leap_year_def)
  have nf: "\<not> fires_on dow k example_once_rule" if "k \<noteq> 31" for dow k
    using that by (simp add: fires_on_def example_once_rule_def)
  have c: "contributions dowf [example_smooth_rule, example_once_rule] 2 =
      [dneg (ddiv (num 10) (num 7))]" for dowf
    by (simp add: contributions_def nf)
       (simp add: fires_on_def example_smooth_rule_def signed_contribution_def magnitude_def)
  have u: "[1..2] = [1, 2]"
    by (simp add: upto_rec1)
  have i: "income_upto dowf [example_smooth_rule, example_once_rule] 2 = num 0" for dowf
    by (simp add: income_upto_def income_parts_def u dsum_def example_smooth_rule_def
        example_once_rule_def)
  have e: "expenses_upto dowf [example_smooth_rule, example_once_rule] 2 =
      dadd (dadd (num 0) (ddiv (num 10) (num 7))) (ddiv (num 10) (num 7))" for dowf
    by (simp add: expenses_upto_def expense_parts_def u dsum_def nf)
       (simp add: fires_on_def example_smooth_rule_def magnitude_def)
  have r: "round_100 (dadd (dadd (num 0) (ddiv (num 10) (num 7))) (ddiv (num 10) (num 7))) =
      lit (286 / 100)"
    unfolding smooth_rate_value by (simp add: round_100_def dbl_eval)
  have m: "nat (2 - 1) = 1" by simp
  show ?thesis
    using dailyDelta_rounded_sum [of 2025 1 utc_zone "[example_entry]" 2 "num 0"
        "[example_smooth_rule, example_once_rule]" example_once_rule 31]
    unfolding n m c i e r dsum_def
    by (simp add: valid_year_month_def regular_month_utc example_entry_def
        whole_day_from_num_entry once smooth_delta_rounded round_100_zero)
qed

text \<open>
  The claim as written fails. The stored daily delta is rounded: a smooth weekly expense of
  10 contributes the floating-point quotient \<open>-10 / 7\<close> on 1 January 2025, and the stored
  daily delta is \<open>-1.43\<close>. The weekday is the one that the host's \<^verbatim>\<open>Date\<close> gives: a year
  from 0 to 99 is read as a year of the twentieth century, so that in January of the year 50
  a rule for Sundays fires on day 1, which is a Saturday in the calendar; and in the time
  zone of Apia, where 30 December 2011 was skipped, a rule for Fridays does not fire on day
  30 of December 2011, a Friday. With the single observed entry of day \<open>-10\<^sup>1\<^sup>7\<close> the call
  does not return, and in the time zone of Kiritimati the result for December 1994 is the
  single point of day 1.
\<close>

theorem dailyDelta_not_sum_counterexample:
  "dailyDelta (projr (the (calculateDailySimulation utc_zone (num 0) 2025 0 [example_smooth_rule] [])) ! 0)
     = lit (- 143 / 100)
   \<and> lit (- 143 / 100) \<noteq> dsum (contributions (calendar_dow 2025 0) [example_smooth_rule] 1)
   \<and> dailyDelta (projr (the (calculateDailySimulation utc_zone (num 0) 50 0 [example_sunday_rule] [])) ! 0)
     = num 50
   \<and> contributions (calendar_dow 50 0) [example_sunday_rule] 1 = []
   \<and> dailyDelta (projr (the (calculateDailySimulation zone_apia (num 0) 2011 11 [example_friday_rule] [])) ! 29)
     = num 0
   \<and> contributions (calendar_dow 2011 11) [example_friday_rule] 30 = [num 50]
   \<and> calculateDailySimulation utc_zone (num 0) 2025 0 [example_smooth_rule] [stuck_entry] = None
   \<and> map dayNumber
        (projr (the (calculateDailySimulation zone_kiritimati (num 0) 1994 11 [] []))) = [1]"
proof -
  have "projr (the (calculateDailySimulation utc_zone (num 0) 2025 0 [example_smooth_rule] [])) ! nat (1 - 1) =
      day_point (host_weekday utc_zone 2025 0) (num 0) [example_smooth_rule] [] (last_max_entry []) 1"
    by (rule nth_point_host)
       (simp_all add: valid_year_month_def keeps_day_utc calendar_days_in_month_def)
  then have a: "dailyDelta (projr (the (calculateDailySimulation utc_zone (num 0) 2025 0
      [example_smooth_rule] [])) ! 0) = lit (- 143 / 100)"
    by (simp add: day_point_def contributions_example_smooth_rule dsum_def smooth_delta_rounded)
  have b: "lit (- 143 / 100) \<noteq> dsum (contributions (calendar_dow 2025 0) [example_smooth_rule] 1)"
    using smooth_delta_differs by (simp add: contributions_example_smooth_rule dsum_def)
  show ?thesis
    using a b year_50_sunday apia_december_2011 stuck_entry_never_returns [of "[example_smooth_rule]"]
      kiritimati_december_1994
    by simp
qed

section \<open>C6: the rounding of the stored fields\<close>






end
